theory Spec2Isabelle
  imports Complex_Main "HOL-Library.Char_ord" "HOL-Library.List_Lexorder"
begin

section \<open>Agent state (bot\_activity\_manager.py, class ActivityState)\<close>

text \<open>
  Python floats are modelled as reals. A \<open>datetime\<close> is modelled as a real number of
  seconds; the hour of the day that \<open>datetime.now().hour\<close> reads is passed beside it.
\<close>

datatype ActivityMode = NORMAL | ENERGETIC | CALM | SLEEPY | SOCIAL | FOCUSED

datatype MoodState = HAPPY | NEUTRAL | TIRED | EXCITED | MELANCHOLY

record Patterns =
  morning :: real
  afternoon :: real
  evening :: real
  night :: real

record ActivityState =
  bot_id :: string
  activity_rate :: real
  is_active :: bool
  last_activity :: real
  offline_since :: "real option"
  total_messages :: int
  errors_count :: int
  activity_mode :: ActivityMode
  mood_state :: MoodState
  energy_level :: real
  social_factor :: real
  last_mood_change :: real
  conversation_count_today :: int
  positive_interactions :: int
  negative_interactions :: int
  activity_patterns :: Patterns

text \<open>\<open>ActivityState.__init__\<close>; \<open>now\<close> is the value of \<open>datetime.now()\<close>.\<close>

definition new_ActivityState :: "real \<Rightarrow> string \<Rightarrow> real \<Rightarrow> bool \<Rightarrow> real option \<Rightarrow> ActivityState" where
  "new_ActivityState now bid rate active last_act =
     \<lparr> bot_id = bid,
       activity_rate = rate,
       is_active = active,
       last_activity = (case last_act of Some t \<Rightarrow> t | None \<Rightarrow> now),
       offline_since = None,
       total_messages = 0,
       errors_count = 0,
       activity_mode = NORMAL,
       mood_state = NEUTRAL,
       energy_level = 50,
       social_factor = 50,
       last_mood_change = now,
       conversation_count_today = 0,
       positive_interactions = 0,
       negative_interactions = 0,
       activity_patterns = \<lparr> morning = 8 / 10, afternoon = 1, evening = 9 / 10, night = 3 / 10 \<rparr> \<rparr>"

definition get_current_time_factor :: "nat \<Rightarrow> ActivityState \<Rightarrow> real" where
  "get_current_time_factor current_hour s =
     (if 6 \<le> current_hour \<and> current_hour < 12 then morning (activity_patterns s)
      else if 12 \<le> current_hour \<and> current_hour < 18 then afternoon (activity_patterns s)
      else if 18 \<le> current_hour \<and> current_hour < 22 then evening (activity_patterns s)
      else night (activity_patterns s))"

definition mood_multipliers :: "(MoodState \<times> real) list" where
  "mood_multipliers =
     [(HAPPY, 12 / 10), (EXCITED, 14 / 10), (NEUTRAL, 1), (TIRED, 6 / 10), (MELANCHOLY, 8 / 10)]"

definition get_mood_factor :: "ActivityState \<Rightarrow> real" where
  "get_mood_factor s =
     (case map_of mood_multipliers (mood_state s) of Some v \<Rightarrow> v | None \<Rightarrow> 1)"

definition get_energy_factor :: "ActivityState \<Rightarrow> real" where
  "get_energy_factor s = (energy_level s / 100) * (15 / 10) + 2 / 10"

definition mode_multipliers :: "(ActivityMode \<times> real) list" where
  "mode_multipliers =
     [(NORMAL, 1), (ENERGETIC, 13 / 10), (CALM, 8 / 10), (SLEEPY, 4 / 10),
      (SOCIAL, 15 / 10), (FOCUSED, 9 / 10)]"

definition get_adjusted_activity_rate :: "nat \<Rightarrow> ActivityState \<Rightarrow> real" where
  "get_adjusted_activity_rate current_hour s =
     (let base_rate = activity_rate s;
          time_factor = get_current_time_factor current_hour s;
          mood_factor = get_mood_factor s;
          energy_factor = get_energy_factor s;
          mode_factor = (case map_of mode_multipliers (activity_mode s) of
                           Some v \<Rightarrow> v | None \<Rightarrow> 1);
          adjusted_rate = base_rate * time_factor * mood_factor * energy_factor * mode_factor
      in max 0 (min 1 adjusted_rate))"

subsection \<open>Random draws\<close>

text \<open>
  Every call of the \<open>random\<close> module is an explicit input. \<open>random.choice\<close> picks the
  element at the drawn position.
\<close>

definition choice :: "nat \<Rightarrow> 'a list \<Rightarrow> 'a" where
  "choice i xs = xs ! (i mod length xs)"

record MoodDraws =
  uniform_energy :: real
  random_transition :: real
  choice_negative :: nat
  random_natural :: real
  random_night :: real
  choice_natural :: nat

definition natural_mood_change :: "nat \<Rightarrow> MoodDraws \<Rightarrow> ActivityState \<Rightarrow> ActivityState" where
  "natural_mood_change current_hour d s =
     (if (22 \<le> current_hour \<and> current_hour < 24) \<or> current_hour < 6 then
        (if random_night d < 6 / 10
         then s\<lparr> mood_state := TIRED, energy_level := max 0 (energy_level s - 10) \<rparr>
         else s)
      else
        (let mood_options =
               (if energy_level s > 70 then [HAPPY, EXCITED]
                else if energy_level s < 30 then [TIRED, MELANCHOLY]
                else [NEUTRAL, HAPPY])
         in s\<lparr> mood_state := choice (choice_natural d) mood_options \<rparr>))"

definition mood_positive :: "MoodDraws \<Rightarrow> ActivityState \<Rightarrow> ActivityState" where
  "mood_positive d s =
     (let s1 = s\<lparr> positive_interactions := positive_interactions s + 1,
                   energy_level := min 100 (energy_level s + uniform_energy d) \<rparr>
      in if mood_state s1 \<in> set [TIRED, MELANCHOLY] then
           (if random_transition d < 3 / 10 then s1\<lparr> mood_state := NEUTRAL \<rparr> else s1)
         else if mood_state s1 = NEUTRAL then
           (if random_transition d < 4 / 10 then s1\<lparr> mood_state := HAPPY \<rparr> else s1)
         else if mood_state s1 = HAPPY then
           (if random_transition d < 2 / 10 then s1\<lparr> mood_state := EXCITED \<rparr> else s1)
         else s1)"

definition mood_negative :: "MoodDraws \<Rightarrow> ActivityState \<Rightarrow> ActivityState" where
  "mood_negative d s =
     (let s1 = s\<lparr> negative_interactions := negative_interactions s + 1,
                   energy_level := max 0 (energy_level s - uniform_energy d) \<rparr>
      in if mood_state s1 \<in> set [HAPPY, EXCITED] then
           (if random_transition d < 4 / 10 then s1\<lparr> mood_state := NEUTRAL \<rparr> else s1)
         else if mood_state s1 = NEUTRAL then
           (if random_transition d < 3 / 10
            then s1\<lparr> mood_state := choice (choice_negative d) [TIRED, MELANCHOLY] \<rparr>
            else s1)
         else s1)"

text \<open>\<open>ActivityState.update_mood\<close>; times are in seconds, 3600 to the hour.\<close>

definition update_mood :: "real \<Rightarrow> nat \<Rightarrow> MoodDraws \<Rightarrow> string \<Rightarrow> ActivityState \<Rightarrow> ActivityState" where
  "update_mood now current_hour d interaction_type s =
     (let s1 = (if interaction_type = ''positive'' then mood_positive d s
                else if interaction_type = ''negative'' then mood_negative d s
                else s);
          time_since_last_change = (now - last_mood_change s1) / 3600
      in if time_since_last_change > 2 then
           (if random_natural d < 1 / 10
            then (natural_mood_change current_hour d s1)\<lparr> last_mood_change := now \<rparr>
            else s1)
         else s1)"

definition update_activity_mode :: "nat \<Rightarrow> ActivityState \<Rightarrow> ActivityState" where
  "update_activity_mode current_hour s =
     (let base_mode =
            (if (22 \<le> current_hour \<and> current_hour < 24) \<or> current_hour < 7 then SLEEPY
             else if 7 \<le> current_hour \<and> current_hour < 12 then NORMAL
             else if 12 \<le> current_hour \<and> current_hour < 18 then ENERGETIC
             else CALM)
      in if mood_state s = EXCITED \<and> energy_level s > 80 then s\<lparr> activity_mode := SOCIAL \<rparr>
         else if mood_state s = TIRED \<or> energy_level s < 20 then s\<lparr> activity_mode := SLEEPY \<rparr>
         else if social_factor s > 75 then s\<lparr> activity_mode := SOCIAL \<rparr>
         else if conversation_count_today s > 20 then s\<lparr> activity_mode := FOCUSED \<rparr>
         else s\<lparr> activity_mode := base_mode \<rparr>)"

record ResetDraws =
  uniform_recover :: real
  random_reset :: real

definition daily_reset :: "ResetDraws \<Rightarrow> ActivityState \<Rightarrow> ActivityState" where
  "daily_reset d s =
     (let s1 = s\<lparr> conversation_count_today := 0, positive_interactions := 0,
                   negative_interactions := 0 \<rparr>;
          s2 = (if energy_level s1 < 50
                then s1\<lparr> energy_level := min 100 (energy_level s1 + uniform_recover d) \<rparr>
                else s1)
      in if random_reset d < 3 / 10 then s2\<lparr> mood_state := NEUTRAL \<rparr> else s2)"

section \<open>Exceptions\<close>

text \<open>
  The exceptions the modelled code can meet. \<open>CancelledError\<close> derives from
  \<open>BaseException\<close>, so a handler \<open>except Exception\<close> lets it through; the others derive
  from \<open>Exception\<close>.
\<close>

datatype exn = AttributeError | ValueError | TypeError | KeyError | RuntimeError | CancelledError

fun is_Exception :: "exn \<Rightarrow> bool" where
  "is_Exception CancelledError = False"
| "is_Exception _ = True"

section \<open>Performance monitors\<close>

text \<open>
  Two classes are named \<open>PerformanceMonitor\<close>. The one of performance\_optimizer.py keeps
  a dictionary of metrics and has the methods \<open>start_monitoring\<close>, \<open>stop_monitoring\<close>,
  \<open>record_task_completion\<close>, \<open>record_error\<close> and \<open>get_performance_summary\<close>. The one
  of bot\_activity\_manager.py keeps the last CPU and memory reading and has the methods
  \<open>update\<close>, \<open>is_high_load\<close>, \<open>is_critical_load\<close> and \<open>get_stats\<close>.
\<close>

record Metrics =
  cpu_usage_samples :: "(real \<times> real) list"
  memory_usage_samples :: "(real \<times> real) list"
  task_completion_times :: "(string \<times> real) list"
  error_counts :: "string \<rightharpoonup> int"
  metrics_active_tasks :: int

definition new_Metrics :: Metrics where
  "new_Metrics = \<lparr> cpu_usage_samples = [], memory_usage_samples = [],
                   task_completion_times = [], error_counts = Map.empty,
                   metrics_active_tasks = 0 \<rparr>"

definition record_task_completion :: "string \<Rightarrow> real \<Rightarrow> Metrics \<Rightarrow> Metrics" where
  "record_task_completion task_name execution_time mt =
     mt\<lparr> task_completion_times := task_completion_times mt @ [(task_name, execution_time)] \<rparr>"

definition record_error :: "string \<Rightarrow> Metrics \<Rightarrow> Metrics" where
  "record_error error_type mt =
     (let counts = (if error_type \<notin> dom (error_counts mt)
                    then (error_counts mt)(error_type \<mapsto> 0) else error_counts mt)
      in mt\<lparr> error_counts := counts(error_type \<mapsto> the (counts error_type) + 1) \<rparr>)"

record LoadMonitor =
  cpu_usage :: real
  memory_usage :: real
  high_load_threshold :: real
  critical_load_threshold :: real

definition new_LoadMonitor :: LoadMonitor where
  "new_LoadMonitor = \<lparr> cpu_usage = 0, memory_usage = 0, high_load_threshold = 80,
                       critical_load_threshold = 95 \<rparr>"

text \<open>
  What happens when \<open>update\<close> runs: \<open>psutil\<close> gives the two readings; or the module is
  missing and two dummy values are drawn; or \<open>cpu_percent\<close> raises, and nothing is stored;
  or \<open>cpu_percent\<close> gives its reading, which is stored, and \<open>virtual_memory\<close> raises.
  The handler of the method logs the exception.
\<close>

datatype Sample = Measured real real | NoPsutil real real | CpuFailed | MemoryFailed real

fun update :: "Sample \<Rightarrow> LoadMonitor \<Rightarrow> LoadMonitor" where
  "update (Measured c mem) pm = pm\<lparr> cpu_usage := c, memory_usage := mem \<rparr>"
| "update (NoPsutil c mem) pm = pm\<lparr> cpu_usage := c, memory_usage := mem \<rparr>"
| "update CpuFailed pm = pm"
| "update (MemoryFailed c) pm = pm\<lparr> cpu_usage := c \<rparr>"

definition is_high_load :: "LoadMonitor \<Rightarrow> bool" where
  "is_high_load pm \<longleftrightarrow>
     cpu_usage pm > high_load_threshold pm \<or> memory_usage pm > high_load_threshold pm"

definition is_critical_load :: "LoadMonitor \<Rightarrow> bool" where
  "is_critical_load pm \<longleftrightarrow>
     cpu_usage pm > critical_load_threshold pm \<or> memory_usage pm > critical_load_threshold pm"

text \<open>
  An object of either class. Calling a method the object's class does not have raises
  \<open>AttributeError\<close>.
\<close>

datatype MonitorObject =
    OptimizerPerformanceMonitor Metrics
  | ActivityPerformanceMonitor LoadMonitor

fun call_update :: "Sample \<Rightarrow> MonitorObject \<Rightarrow> exn + MonitorObject" where
  "call_update smp (OptimizerPerformanceMonitor mt) = Inl AttributeError"
| "call_update smp (ActivityPerformanceMonitor pm) = Inr (ActivityPerformanceMonitor (update smp pm))"

fun call_is_high_load :: "MonitorObject \<Rightarrow> exn + bool" where
  "call_is_high_load (OptimizerPerformanceMonitor mt) = Inl AttributeError"
| "call_is_high_load (ActivityPerformanceMonitor pm) = Inr (is_high_load pm)"

fun call_is_critical_load :: "MonitorObject \<Rightarrow> exn + bool" where
  "call_is_critical_load (OptimizerPerformanceMonitor mt) = Inl AttributeError"
| "call_is_critical_load (ActivityPerformanceMonitor pm) = Inr (is_critical_load pm)"

section \<open>The activity manager (class BotActivityManager)\<close>

text \<open>
  \<open>bot_states\<close> is a dictionary whose iteration order is used, so it is a list of pairs
  with one pair for each key. The fields \<open>preferred_active_hours\<close> and \<open>sleep_schedule\<close>
  of a state are written at registration and read nowhere; they are left out.
\<close>

record BotActivityManager =
  self_bot_id :: string
  memory_db :: bool
  activity_rate_range :: "real \<times> real"
  enable_offline_mode :: bool
  enable_mood_tracking :: bool
  enable_time_patterns :: bool
  enable_bot_rotation :: bool
  rotation_interval :: real
  min_online_bots :: int
  max_online_bots :: int
  last_rotation :: real
  bot_states :: "(string \<times> ActivityState) list"
  last_rate_change :: real
  rate_change_interval :: real
  last_daily_reset :: real
  learned_patterns :: "string \<rightharpoonup> int"
  performance_monitor :: MonitorObject

record Config =
  cfg_activity_rate_range :: "real \<times> real"
  cfg_enable_offline_mode :: bool
  cfg_enable_mood_tracking :: bool
  cfg_enable_time_patterns :: bool
  cfg_rotation_enabled :: bool
  cfg_rotation_interval_minutes :: real
  cfg_min_online_bots :: int
  cfg_max_online_bots :: int

text \<open>The configuration \<open>__init__\<close> reads when every key is absent.\<close>

definition default_Config :: Config where
  "default_Config =
     \<lparr> cfg_activity_rate_range = (1 / 10, 6 / 10), cfg_enable_offline_mode = True,
       cfg_enable_mood_tracking = True, cfg_enable_time_patterns = True,
       cfg_rotation_enabled = True, cfg_rotation_interval_minutes = 60,
       cfg_min_online_bots = 2, cfg_max_online_bots = 3 \<rparr>"

definition date_of :: "real \<Rightarrow> int" where
  "date_of t = \<lfloor>t / 86400\<rfloor>"

definition midnight :: "real \<Rightarrow> real" where
  "midnight t = of_int (date_of t) * 86400"

text \<open>
  \<open>BotActivityManager.__init__\<close>. The statement
  \<open>from .performance_optimizer import PerformanceMonitor\<close> inside the method binds the
  name locally, so the object stored in \<open>performance_monitor\<close> is of the class of
  performance\_optimizer.py, not of the class defined further down in
  bot\_activity\_manager.py.
\<close>

definition new_BotActivityManager :: "real \<Rightarrow> nat \<Rightarrow> Config \<Rightarrow> string \<Rightarrow> bool \<Rightarrow> BotActivityManager" where
  "new_BotActivityManager now randint_10_30 cfg bid db =
     \<lparr> self_bot_id = bid,
       memory_db = db,
       activity_rate_range = cfg_activity_rate_range cfg,
       enable_offline_mode = cfg_enable_offline_mode cfg,
       enable_mood_tracking = cfg_enable_mood_tracking cfg,
       enable_time_patterns = cfg_enable_time_patterns cfg,
       enable_bot_rotation = cfg_rotation_enabled cfg,
       rotation_interval = cfg_rotation_interval_minutes cfg * 60,
       min_online_bots = cfg_min_online_bots cfg,
       max_online_bots = cfg_max_online_bots cfg,
       last_rotation = now,
       bot_states = [],
       last_rate_change = now,
       rate_change_interval = real randint_10_30 * 60,
       last_daily_reset = midnight now,
       learned_patterns = Map.empty,
       performance_monitor = OptimizerPerformanceMonitor new_Metrics \<rparr>"

subsection \<open>Dictionary operations on \<open>bot_states\<close>\<close>

definition dict_set :: "'k \<Rightarrow> 'v \<Rightarrow> ('k \<times> 'v) list \<Rightarrow> ('k \<times> 'v) list" where
  "dict_set k v xs =
     (if k \<in> set (map fst xs) then map (\<lambda>(k', v'). if k' = k then (k', v) else (k', v')) xs
      else xs @ [(k, v)])"

text \<open>
  A loop \<open>for bot_id, state in self.bot_states.items()\<close> whose body writes only to
  \<open>state\<close> is \<open>map_states\<close>; a write to the one state object stored under a key is
  \<open>modify_state\<close>.
\<close>

definition map_states :: "(string \<Rightarrow> ActivityState \<Rightarrow> ActivityState) \<Rightarrow> BotActivityManager \<Rightarrow> BotActivityManager" where
  "map_states f m = m\<lparr> bot_states := map (\<lambda>(k, st). (k, f k st)) (bot_states m) \<rparr>"

definition modify_state :: "string \<Rightarrow> (ActivityState \<Rightarrow> ActivityState) \<Rightarrow> BotActivityManager \<Rightarrow> BotActivityManager" where
  "modify_state bid f m = map_states (\<lambda>k st. if k = bid then f st else st) m"

definition active_bots :: "BotActivityManager \<Rightarrow> string list" where
  "active_bots m = map fst (filter (\<lambda>(bid, st). is_active st) (bot_states m))"

definition inactive_bots :: "BotActivityManager \<Rightarrow> string list" where
  "inactive_bots m = map fst (filter (\<lambda>(bid, st). \<not> is_active st) (bot_states m))"

subsection \<open>Registration and presence\<close>

fun apply_pattern_update :: "(string \<times> real) list \<Rightarrow> Patterns \<Rightarrow> Patterns" where
  "apply_pattern_update [] p = p"
| "apply_pattern_update ((k, v) # kvs) p =
     apply_pattern_update kvs
       (if k = ''morning'' then p\<lparr> morning := v \<rparr>
        else if k = ''afternoon'' then p\<lparr> afternoon := v \<rparr>
        else if k = ''evening'' then p\<lparr> evening := v \<rparr>
        else if k = ''night'' then p\<lparr> night := v \<rparr>
        else p)"

definition register_bot :: "real \<Rightarrow> real \<Rightarrow> string \<Rightarrow> (string \<times> real) list option \<Rightarrow> BotActivityManager \<Rightarrow> BotActivityManager" where
  "register_bot now initial_rate bid custom_patterns m =
     (let state = new_ActivityState now bid initial_rate True (Some now);
          state' = (case custom_patterns of
                      None \<Rightarrow> state
                    | Some kvs \<Rightarrow> state\<lparr> activity_patterns :=
                                         apply_pattern_update kvs (activity_patterns state) \<rparr>)
      in m\<lparr> bot_states := dict_set bid state' (bot_states m) \<rparr>)"

text \<open>
  \<open>_set_bot_offline\<close> and \<open>_set_bot_online\<close> assign the fields first; the calls to the
  chat platform that follow are inside the method's own handler and change no field.
\<close>

definition set_bot_offline :: "real \<Rightarrow> string \<Rightarrow> BotActivityManager \<Rightarrow> BotActivityManager" where
  "set_bot_offline now bid m =
     modify_state bid (\<lambda>st. st\<lparr> is_active := False, offline_since := Some now \<rparr>) m"

definition set_bot_online :: "real \<Rightarrow> string \<Rightarrow> BotActivityManager \<Rightarrow> BotActivityManager" where
  "set_bot_online now bid m =
     modify_state bid (\<lambda>st. st\<lparr> is_active := True, offline_since := None,
                                last_activity := now \<rparr>) m"

subsection \<open>Sampling without replacement\<close>

text \<open>
  \<open>random.sample(population, k)\<close> raises \<open>ValueError\<close> when \<open>k\<close> is negative or larger
  than the population, and otherwise returns \<open>k\<close> elements taken from \<open>k\<close> different
  positions. The positions are drawn one after the other from what is left of the
  population; \<open>r i\<close> is the draw made when \<open>i + 1\<close> elements are still to be taken.
\<close>

fun sample :: "(nat \<Rightarrow> nat) \<Rightarrow> 'a list \<Rightarrow> nat \<Rightarrow> 'a list" where
  "sample r pool 0 = []"
| "sample r pool (Suc k) =
     (if pool = [] then []
      else (let j = r k mod length pool
            in pool ! j # sample r (take j pool @ drop (Suc j) pool) k))"

definition random_sample :: "(nat \<Rightarrow> nat) \<Rightarrow> 'a list \<Rightarrow> int \<Rightarrow> exn + 'a list" where
  "random_sample r population k =
     (if k < 0 \<or> int (length population) < k then Inl ValueError
      else Inr (sample r population (nat k)))"

subsection \<open>Rotation\<close>

text \<open>
  The states of the manager after each call of \<open>_set_bot_offline\<close> or \<open>_set_bot_online\<close>
  in a loop over the chosen agents: each call awaits the chat platform, so the state after
  it can be observed by other coroutines.
\<close>

fun offline_each :: "real \<Rightarrow> string list \<Rightarrow> BotActivityManager \<Rightarrow> BotActivityManager list" where
  "offline_each now [] m = []"
| "offline_each now (b # bs) m =
     (let m' = set_bot_offline now b m in m' # offline_each now bs m')"

fun online_each :: "real \<Rightarrow> string list \<Rightarrow> BotActivityManager \<Rightarrow> BotActivityManager list" where
  "online_each now [] m = []"
| "online_each now (b # bs) m =
     (let m' = set_bot_online now b m in m' # online_each now bs m')"

record RotationDraws =
  sample_offline :: "nat \<Rightarrow> nat"
  sample_online :: "nat \<Rightarrow> nat"
  randint_1_2 :: nat

text \<open>
  \<open>_rotate_online_bots\<close>, as the list of the states the manager goes through, the first
  being the state once \<open>last_rotation\<close> is written (or the unchanged state when the method
  returns at once) and the last the state at return. An exception of \<open>random.sample\<close> is
  caught by the handler of the method, which logs it. The swap branch sleeps five seconds
  between its two loops.
\<close>

definition rotate_trace :: "real \<Rightarrow> RotationDraws \<Rightarrow> BotActivityManager \<Rightarrow> BotActivityManager list" where
  "rotate_trace now d m =
     (if \<not> enable_bot_rotation m \<or> \<not> enable_offline_mode m then [m]
      else if now - last_rotation m < rotation_interval m then [m]
      else
        (let m0 = m\<lparr> last_rotation := now \<rparr>;
             active = active_bots m0;
             inactive = inactive_bots m0
         in if int (length active) > max_online_bots m0 then
              (let num_to_offline = int (length active) - max_online_bots m0
               in case random_sample (sample_offline d) active num_to_offline of
                    Inl e \<Rightarrow> [m0]
                  | Inr bots_to_offline \<Rightarrow> m0 # offline_each now bots_to_offline m0)
            else if int (length active) < min_online_bots m0 \<and> inactive \<noteq> [] then
              (let num_to_online = min (int (length inactive))
                                       (min_online_bots m0 - int (length active))
               in case random_sample (sample_online d) inactive num_to_online of
                    Inl e \<Rightarrow> [m0]
                  | Inr bots_to_online \<Rightarrow> m0 # online_each now bots_to_online m0)
            else if inactive \<noteq> [] then
              (let num_to_rotate = min (min (int (length active)) (int (length inactive)))
                                       (int (randint_1_2 d))
               in case random_sample (sample_offline d) active num_to_rotate of
                    Inl e \<Rightarrow> [m0]
                  | Inr active_to_offline \<Rightarrow>
                      (case random_sample (sample_online d) inactive num_to_rotate of
                         Inl e \<Rightarrow> [m0]
                       | Inr inactive_to_online \<Rightarrow>
                           (let offs = offline_each now active_to_offline m0;
                                m1 = last (m0 # offs);
                                ons = online_each (now + 5) inactive_to_online m1
                            in m0 # offs @ ons)))
            else [m0]))"

definition rotate_online_bots :: "real \<Rightarrow> RotationDraws \<Rightarrow> BotActivityManager \<Rightarrow> BotActivityManager" where
  "rotate_online_bots now d m = last (rotate_trace now d m)"

subsection \<open>Performance monitoring and emergency scale-down\<close>

definition emergency_one :: "real \<Rightarrow> string \<Rightarrow> BotActivityManager \<Rightarrow> BotActivityManager" where
  "emergency_one now bid m =
     set_bot_offline now bid
       (modify_state bid (\<lambda>st. st\<lparr> energy_level := max 0 (energy_level st - 30),
                                   mood_state := TIRED \<rparr>) m)"

definition emergency_scale_down :: "real \<Rightarrow> (nat \<Rightarrow> nat) \<Rightarrow> BotActivityManager \<Rightarrow> BotActivityManager" where
  "emergency_scale_down now r m =
     (let active = active_bots m
      in if length active > 1 then
           (case random_sample r active (int (length active) div 2) of
              Inl e \<Rightarrow> m
            | Inr bots_to_offline \<Rightarrow> fold (emergency_one now) bots_to_offline m)
         else m)"

text \<open>
  A step of the management loop either returns or raises; what it wrote before raising
  stays written. \<open>_monitor_performance\<close> has no handler of its own.
\<close>

definition monitor_performance :: "Sample \<Rightarrow> real \<Rightarrow> (nat \<Rightarrow> nat) \<Rightarrow> BotActivityManager \<Rightarrow> exn option \<times> BotActivityManager" where
  "monitor_performance smp now r m =
     (case call_update smp (performance_monitor m) of
        Inl e \<Rightarrow> (Some e, m)
      | Inr pm \<Rightarrow>
          (let m1 = m\<lparr> performance_monitor := pm \<rparr>
           in case call_is_critical_load pm of
                Inl e \<Rightarrow> (Some e, m1)
              | Inr critical \<Rightarrow>
                  (if critical then (None, emergency_scale_down now r m1) else (None, m1))))"

subsection \<open>The other steps of the management loop\<close>

definition check_daily_reset :: "real \<Rightarrow> (string \<Rightarrow> ResetDraws) \<Rightarrow> BotActivityManager \<Rightarrow> BotActivityManager" where
  "check_daily_reset now draws m =
     (if date_of now > date_of (last_daily_reset m)
      then (map_states (\<lambda>k st. daily_reset (draws k) st) m)\<lparr> last_daily_reset := midnight now \<rparr>
      else m)"

definition update_one_state :: "bool \<Rightarrow> real \<Rightarrow> nat \<Rightarrow> MoodDraws \<Rightarrow> ActivityState \<Rightarrow> ActivityState" where
  "update_one_state tracking now current_hour d st =
     (let st1 = (if tracking
                 then update_activity_mode current_hour (update_mood now current_hour d ''neutral'' st)
                 else st);
          time_since_activity = (now - last_activity st1) / 3600
      in if time_since_activity > 1 then
           (let energy_decay = min (time_since_activity * 2) 10
            in st1\<lparr> energy_level := max 0 (energy_level st1 - energy_decay) \<rparr>)
         else st1)"

definition update_activity_states :: "real \<Rightarrow> nat \<Rightarrow> (string \<Rightarrow> MoodDraws) \<Rightarrow> BotActivityManager \<Rightarrow> BotActivityManager" where
  "update_activity_states now current_hour draws m =
     map_states (\<lambda>k st. update_one_state (enable_mood_tracking m) now current_hour (draws k) st) m"

text \<open>
  The loop of \<open>_update_activity_rates\<close> calls \<open>is_high_load\<close> on the monitor after it has
  written the new base rate of the agent at hand; an exception leaves the loop there.
\<close>

fun rates_loop :: "(string \<Rightarrow> real) \<Rightarrow> string list \<Rightarrow> BotActivityManager \<Rightarrow> exn option \<times> BotActivityManager" where
  "rates_loop rates [] m = (None, m)"
| "rates_loop rates (b # bs) m =
     (let m1 = modify_state b (\<lambda>st. st\<lparr> activity_rate := rates b \<rparr>) m
      in case call_is_high_load (performance_monitor m1) of
           Inl e \<Rightarrow> (Some e, m1)
         | Inr high \<Rightarrow>
             rates_loop rates bs
               (if high
                then modify_state b (\<lambda>st. st\<lparr> activity_rate := activity_rate st * (7 / 10) \<rparr>) m1
                else m1))"

definition update_activity_rates :: "real \<Rightarrow> (string \<Rightarrow> real) \<Rightarrow> nat \<Rightarrow> BotActivityManager \<Rightarrow> exn option \<times> BotActivityManager" where
  "update_activity_rates now rates randint_10_30 m =
     (if now - last_rate_change m > rate_change_interval m then
        (case rates_loop rates (map fst (bot_states m)) m of
           (Some e, m1) \<Rightarrow> (Some e, m1)
         | (None, m1) \<Rightarrow>
             (None, m1\<lparr> last_rate_change := now,
                        rate_change_interval := real randint_10_30 * 60 \<rparr>))
      else (None, m))"

definition manage_one :: "BotActivityManager \<Rightarrow> real \<Rightarrow> nat \<Rightarrow> real \<Rightarrow> ActivityState \<Rightarrow> ActivityState" where
  "manage_one m now current_hour rnd st =
     (let adjusted_rate = (if enable_time_patterns m
                           then get_adjusted_activity_rate current_hour st
                           else activity_rate st)
      in if \<not> enable_bot_rotation m then
           (if rnd > adjusted_rate then
              (if is_active st then st\<lparr> is_active := False, offline_since := Some now \<rparr> else st)
            else
              (if \<not> is_active st
               then st\<lparr> is_active := True, offline_since := None, last_activity := now \<rparr>
               else st))
         else st)"

definition manage_offline_bots :: "real \<Rightarrow> nat \<Rightarrow> (string \<Rightarrow> real) \<Rightarrow> BotActivityManager \<Rightarrow> BotActivityManager" where
  "manage_offline_bots now current_hour rnd m =
     (if \<not> enable_offline_mode m then m
      else map_states (\<lambda>k st. manage_one m now current_hour (rnd k) st) m)"

subsection \<open>Pattern learning\<close>

function str_nat :: "nat \<Rightarrow> string" where
  "str_nat n = (if n < 10 then [char_of (48 + n)]
                else str_nat (n div 10) @ [char_of (48 + n mod 10)])"
  by pat_completeness auto
termination
  by (relation "measure id") auto

definition pattern_key :: "string \<Rightarrow> nat \<Rightarrow> string" where
  "pattern_key bid current_hour = bid @ ''_'' @ str_nat current_hour"

definition apply_learned_patterns :: "nat \<Rightarrow> string \<Rightarrow> BotActivityManager \<Rightarrow> BotActivityManager" where
  "apply_learned_patterns current_hour bid m =
     (case learned_patterns m (pattern_key bid current_hour) of
        None \<Rightarrow> m
      | Some activity_count \<Rightarrow>
          (if activity_count > 10
           then modify_state bid (\<lambda>st. st\<lparr> social_factor := min 100 (social_factor st + 5) \<rparr>) m
           else if activity_count < 3
           then modify_state bid (\<lambda>st. st\<lparr> social_factor := max 0 (social_factor st - 2) \<rparr>) m
           else m))"

definition learn_one :: "nat \<Rightarrow> string \<Rightarrow> BotActivityManager \<Rightarrow> BotActivityManager" where
  "learn_one current_hour bid m =
     (case map_of (bot_states m) bid of
        None \<Rightarrow> m
      | Some st \<Rightarrow>
          (if conversation_count_today st > 0 then
             (let key = pattern_key bid current_hour;
                  counts = (if key \<notin> dom (learned_patterns m)
                            then (learned_patterns m)(key \<mapsto> 0) else learned_patterns m);
                  m1 = m\<lparr> learned_patterns := counts(key \<mapsto> the (counts key) + 1) \<rparr>
              in apply_learned_patterns current_hour bid m1)
           else m))"

definition learn_activity_patterns :: "nat \<Rightarrow> BotActivityManager \<Rightarrow> BotActivityManager" where
  "learn_activity_patterns current_hour m =
     (if \<not> memory_db m then m
      else fold (learn_one current_hour) (map fst (bot_states m)) m)"

subsection \<open>Callbacks\<close>

text \<open>
  \<open>user_count\<close> is \<open>None\<close> when no context is passed (or an empty one) and otherwise the
  value of \<open>context.get('user_count', 1)\<close>.
\<close>

definition update_bot_activity :: "real \<Rightarrow> nat \<Rightarrow> MoodDraws \<Rightarrow> real \<Rightarrow> string \<Rightarrow> string \<Rightarrow> int option \<Rightarrow> BotActivityManager \<Rightarrow> BotActivityManager" where
  "update_bot_activity now current_hour d uniform_1_3 bid interaction_type user_count m =
     (if bid \<in> set (map fst (bot_states m)) then
        modify_state bid
          (\<lambda>st. let st1 = st\<lparr> last_activity := now,
                               total_messages := total_messages st + 1,
                               conversation_count_today := conversation_count_today st + 1 \<rparr>;
                     st2 = (if enable_mood_tracking m
                            then update_mood now current_hour d interaction_type st1 else st1);
                     st3 = (case user_count of
                              None \<Rightarrow> st2
                            | Some n \<Rightarrow>
                                if n > 2
                                then st2\<lparr> social_factor := min 100 (social_factor st2 + 2) \<rparr>
                                else st2)
                 in if interaction_type = ''positive''
                    then st3\<lparr> energy_level := min 100 (energy_level st3 + uniform_1_3) \<rparr>
                    else st3) m
      else m)"

definition force_mood_change :: "real \<Rightarrow> string \<Rightarrow> MoodState \<Rightarrow> real \<Rightarrow> BotActivityManager \<Rightarrow> BotActivityManager" where
  "force_mood_change now bid new_mood energy_change m =
     (if bid \<in> set (map fst (bot_states m)) then
        modify_state bid
          (\<lambda>st. st\<lparr> mood_state := new_mood,
                     energy_level := max 0 (min 100 (energy_level st + energy_change)),
                     last_mood_change := now \<rparr>) m
      else m)"

definition on_user_interaction :: "real \<Rightarrow> nat \<Rightarrow> MoodDraws \<Rightarrow> real \<Rightarrow> string \<Rightarrow> BotActivityManager \<Rightarrow> bool \<times> BotActivityManager" where
  "on_user_interaction now current_hour d uniform_3_8 interaction_type m =
     (if self_bot_id m \<in> set (map fst (bot_states m)) then
        (True,
         modify_state (self_bot_id m)
           (\<lambda>st. let st1 = st\<lparr> last_activity := now,
                                total_messages := total_messages st + 1,
                                conversation_count_today := conversation_count_today st + 1 \<rparr>;
                      st2 = (if enable_mood_tracking m
                             then update_mood now current_hour d interaction_type st1 else st1)
                  in st2\<lparr> energy_level := min 100 (energy_level st2 + uniform_3_8) \<rparr>) m)
      else (False, m))"

definition on_spontaneous_speech :: "real \<Rightarrow> real \<Rightarrow> BotActivityManager \<Rightarrow> bool \<times> BotActivityManager" where
  "on_spontaneous_speech now uniform_1_3 m =
     (if self_bot_id m \<in> set (map fst (bot_states m)) then
        (True,
         modify_state (self_bot_id m)
           (\<lambda>st. st\<lparr> last_activity := now,
                      total_messages := total_messages st + 1,
                      energy_level := max 0 (energy_level st - uniform_1_3) \<rparr>) m)
      else (False, m))"

subsection \<open>Sequences of calls\<close>

text \<open>
  Every method of the manager that writes to an agent state, as an operation with its
  clock readings and random draws; \<open>run_ops\<close> performs a sequence of them.
\<close>

datatype ManagerOp =
    Op_register_bot real real string "(string \<times> real) list option"
  | Op_set_bot_offline real string
  | Op_set_bot_online real string
  | Op_update_bot_activity real nat MoodDraws real string string "int option"
  | Op_force_mood_change real string MoodState real
  | Op_on_user_interaction real nat MoodDraws real string
  | Op_on_spontaneous_speech real real
  | Op_check_daily_reset real "string \<Rightarrow> ResetDraws"
  | Op_update_activity_states real nat "string \<Rightarrow> MoodDraws"
  | Op_update_activity_rates real "string \<Rightarrow> real" nat
  | Op_manage_offline_bots real nat "string \<Rightarrow> real"
  | Op_rotate_online_bots real RotationDraws
  | Op_monitor_performance Sample real "nat \<Rightarrow> nat"
  | Op_emergency_scale_down real "nat \<Rightarrow> nat"
  | Op_learn_activity_patterns nat
  | Op_apply_learned_patterns nat string

fun apply_op :: "ManagerOp \<Rightarrow> BotActivityManager \<Rightarrow> BotActivityManager" where
  "apply_op (Op_register_bot now rate bid custom) m = register_bot now rate bid custom m"
| "apply_op (Op_set_bot_offline now bid) m = set_bot_offline now bid m"
| "apply_op (Op_set_bot_online now bid) m = set_bot_online now bid m"
| "apply_op (Op_update_bot_activity now h d u bid it uc) m = update_bot_activity now h d u bid it uc m"
| "apply_op (Op_force_mood_change now bid mood change) m = force_mood_change now bid mood change m"
| "apply_op (Op_on_user_interaction now h d u it) m = snd (on_user_interaction now h d u it m)"
| "apply_op (Op_on_spontaneous_speech now u) m = snd (on_spontaneous_speech now u m)"
| "apply_op (Op_check_daily_reset now draws) m = check_daily_reset now draws m"
| "apply_op (Op_update_activity_states now h draws) m = update_activity_states now h draws m"
| "apply_op (Op_update_activity_rates now rates ri) m = snd (update_activity_rates now rates ri m)"
| "apply_op (Op_manage_offline_bots now h rnd) m = manage_offline_bots now h rnd m"
| "apply_op (Op_rotate_online_bots now d) m = rotate_online_bots now d m"
| "apply_op (Op_monitor_performance smp now r) m = snd (monitor_performance smp now r m)"
| "apply_op (Op_emergency_scale_down now r) m = emergency_scale_down now r m"
| "apply_op (Op_learn_activity_patterns h) m = learn_activity_patterns h m"
| "apply_op (Op_apply_learned_patterns h bid) m = apply_learned_patterns h bid m"

definition run_ops :: "ManagerOp list \<Rightarrow> BotActivityManager \<Rightarrow> BotActivityManager" where
  "run_ops ops m = fold apply_op ops m"

text \<open>
  The ranges of the draws: \<open>random.uniform(a, b)\<close> lies between \<open>a\<close> and \<open>b\<close>. The energy
  draw of \<open>update_mood\<close> is \<open>uniform(2, 5)\<close> for a positive interaction and \<open>uniform(3, 7)\<close>
  for a negative one, and is not made otherwise.
\<close>

definition mood_draws_in_range :: "string \<Rightarrow> MoodDraws \<Rightarrow> bool" where
  "mood_draws_in_range interaction_type d \<longleftrightarrow>
     (if interaction_type = ''positive'' then 2 \<le> uniform_energy d \<and> uniform_energy d \<le> 5
      else if interaction_type = ''negative'' then 3 \<le> uniform_energy d \<and> uniform_energy d \<le> 7
      else True)"

fun draws_in_range :: "ManagerOp \<Rightarrow> bool" where
  "draws_in_range (Op_update_bot_activity now h d u bid it uc) \<longleftrightarrow>
     mood_draws_in_range it d \<and> 1 \<le> u \<and> u \<le> 3"
| "draws_in_range (Op_on_user_interaction now h d u it) \<longleftrightarrow>
     mood_draws_in_range it d \<and> 3 \<le> u \<and> u \<le> 8"
| "draws_in_range (Op_on_spontaneous_speech now u) \<longleftrightarrow> 1 \<le> u \<and> u \<le> 3"
| "draws_in_range (Op_check_daily_reset now draws) \<longleftrightarrow>
     (\<forall>k. 20 \<le> uniform_recover (draws k) \<and> uniform_recover (draws k) \<le> 30)"
| "draws_in_range _ \<longleftrightarrow> True"

definition levels_in_range :: "ActivityState \<Rightarrow> bool" where
  "levels_in_range st \<longleftrightarrow>
     0 \<le> energy_level st \<and> energy_level st \<le> 100 \<and>
     0 \<le> social_factor st \<and> social_factor st \<le> 100"

definition presence_consistent :: "ActivityState \<Rightarrow> bool" where
  "presence_consistent st \<longleftrightarrow> (is_active st = False) = (offline_since st \<noteq> None)"

definition all_states :: "(ActivityState \<Rightarrow> bool) \<Rightarrow> BotActivityManager \<Rightarrow> bool" where
  "all_states P m \<longleftrightarrow> list_all (\<lambda>(k, st). P st) (bot_states m)"

section \<open>The management loop\<close>

text \<open>
  \<open>start_management_loop\<close> runs the seven steps in order inside one \<open>try\<close> block, sleeps
  sixty seconds, and starts again; its handler \<open>except Exception\<close> logs the exception and
  sleeps sixty seconds. A step is a function from the state to the state it leaves and the
  exception it raised, if any. \<open>run_steps\<close> returns the names of the steps that were
  called, in order.
\<close>

datatype StepName =
    CheckDailyReset | UpdateActivityStates | UpdateActivityRates | ManageOfflineBots
  | RotateOnlineBots | MonitorPerformance | LearnActivityPatterns

type_synonym 's step = "'s \<Rightarrow> exn option \<times> 's"

fun run_steps :: "(StepName \<times> 's step) list \<Rightarrow> 's \<Rightarrow> StepName list \<times> exn option \<times> 's" where
  "run_steps [] s = ([], None, s)"
| "run_steps ((n, f) # fs) s =
     (case f s of
        (Some e, s') \<Rightarrow> ([n], Some e, s')
      | (None, s') \<Rightarrow> (case run_steps fs s' of (ns, r, s'') \<Rightarrow> (n # ns, r, s'')))"

text \<open>
  One pass of the loop body: \<open>Slept\<close> when the pass ends in one of the two
  \<open>asyncio.sleep(60)\<close>, with the steps called and the exception logged by the handler, if
  any; \<open>Propagated\<close> when the exception is not an \<open>Exception\<close> and leaves the loop.
\<close>

datatype 's TickResult = Slept "StepName list" "exn option" 's | Propagated exn 's

definition tick :: "(StepName \<times> 's step) list \<Rightarrow> 's \<Rightarrow> 's TickResult" where
  "tick steps s =
     (case run_steps steps s of
        (ns, None, s') \<Rightarrow> Slept ns None s'
      | (ns, Some e, s') \<Rightarrow> (if is_Exception e then Slept ns (Some e) s' else Propagated e s'))"



fun state_after :: "'s TickResult \<Rightarrow> 's" where
  "state_after (Slept ns e s) = s"
| "state_after (Propagated e s) = s"

text \<open>
  The loop \<open>while True\<close>, cut after a given number of passes. \<open>Running i lg s\<close>: the loop
  has completed \<open>i\<close> passes, has logged \<open>lg\<close> and is about to start the next pass in
  state \<open>s\<close>. \<open>Terminated i e s\<close>: the loop was left by exception \<open>e\<close> during pass \<open>i\<close>.
  The steps of pass \<open>i\<close> are \<open>steps i\<close>, since the clock and the random draws differ from
  pass to pass.
\<close>

datatype 's LoopOutcome = Running nat "exn list" 's | Terminated nat exn 's

fun start_management_loop :: "nat \<Rightarrow> (nat \<Rightarrow> (StepName \<times> 's step) list) \<Rightarrow> nat \<Rightarrow> exn list \<Rightarrow> 's \<Rightarrow> 's LoopOutcome" where
  "start_management_loop 0 steps i lg s = Running i lg s"
| "start_management_loop (Suc fuel) steps i lg s =
     (case tick (steps i) s of
        Slept ns None s' \<Rightarrow> start_management_loop fuel steps (Suc i) lg s'
      | Slept ns (Some e) s' \<Rightarrow> start_management_loop fuel steps (Suc i) (lg @ [e]) s'
      | Propagated e s' \<Rightarrow> Terminated i e s')"

record TickEnv =
  env_now :: real
  env_hour :: nat
  env_reset_draws :: "string \<Rightarrow> ResetDraws"
  env_mood_draws :: "string \<Rightarrow> MoodDraws"
  env_rates :: "string \<Rightarrow> real"
  env_randint_10_30 :: nat
  env_random :: "string \<Rightarrow> real"
  env_rotation :: RotationDraws
  env_sample :: Sample
  env_emergency :: "nat \<Rightarrow> nat"

definition management_steps :: "TickEnv \<Rightarrow> (StepName \<times> BotActivityManager step) list" where
  "management_steps env =
     [(CheckDailyReset, \<lambda>m. (None, check_daily_reset (env_now env) (env_reset_draws env) m)),
      (UpdateActivityStates,
         \<lambda>m. (None, update_activity_states (env_now env) (env_hour env) (env_mood_draws env) m)),
      (UpdateActivityRates,
         \<lambda>m. update_activity_rates (env_now env) (env_rates env) (env_randint_10_30 env) m),
      (ManageOfflineBots,
         \<lambda>m. (None, manage_offline_bots (env_now env) (env_hour env) (env_random env) m)),
      (RotateOnlineBots, \<lambda>m. (None, rotate_online_bots (env_now env) (env_rotation env) m)),
      (MonitorPerformance,
         \<lambda>m. monitor_performance (env_sample env) (env_now env) (env_emergency env) m),
      (LearnActivityPatterns, \<lambda>m. (None, learn_activity_patterns (env_hour env) m))]"

section \<open>The task engine (performance\_optimizer.py, class AsyncTaskManager)\<close>

datatype TaskPriority = PRIO_LOW | PRIO_NORMAL | PRIO_HIGH | PRIO_CRITICAL

fun priority_value :: "TaskPriority \<Rightarrow> int" where
  "priority_value PRIO_LOW = 1"
| "priority_value PRIO_NORMAL = 2"
| "priority_value PRIO_HIGH = 3"
| "priority_value PRIO_CRITICAL = 4"

record TaskInfo =
  task_id :: string
  task_name :: string
  priority :: TaskPriority
  created_at :: real
  timeout :: "real option"
  retry_count :: int
  max_retries :: int

text \<open>
  A queue entry is the tuple \<open>(priority_value, task_id, task_func, args, kwargs, task_info)\<close>;
  the callable with its arguments is one opaque number. \<open>asyncio.PriorityQueue\<close> hands out
  the smallest entry first, and Python compares tuples from the left: first the negated
  priority, then the task id as a string. The queue is kept as the list of its entries in
  the order \<open>get\<close> will return them; \<open>queue_put\<close> places an entry before the first one
  with a larger key. (Two entries with the same priority and the same id make Python
  compare the callables; the model keeps them in the order of insertion.)
\<close>

type_synonym QueueItem = "int \<times> string \<times> nat \<times> TaskInfo"

fun key_less :: "QueueItem \<Rightarrow> QueueItem \<Rightarrow> bool" where
  "key_less (p1, i1, f1, t1) (p2, i2, f2, t2) \<longleftrightarrow> p1 < p2 \<or> (p1 = p2 \<and> i1 < i2)"

fun queue_put :: "QueueItem \<Rightarrow> QueueItem list \<Rightarrow> QueueItem list" where
  "queue_put x [] = [x]"
| "queue_put x (y # ys) = (if key_less x y then x # y # ys else y # queue_put x ys)"

datatype Outcome = Returned | TimedOut | Raised

datatype Event =
    Started string | Completed string | Timeout string | Retry string int | Failed string

record AsyncTaskManager =
  max_concurrent_tasks :: int
  active_tasks :: "(string \<times> TaskInfo) list"
  task_queue :: "QueueItem list"
  semaphore :: int
  metrics :: Metrics
  is_running :: bool
  event_log :: "Event list"

definition new_AsyncTaskManager :: "int \<Rightarrow> AsyncTaskManager" where
  "new_AsyncTaskManager n =
     \<lparr> max_concurrent_tasks = n, active_tasks = [], task_queue = [], semaphore = n,
       metrics = new_Metrics, is_running = False, event_log = [] \<rparr>"

text \<open>\<open>submit_task\<close>; \<open>ms\<close> is \<open>int(time.time() * 1000)\<close>.\<close>

definition submit_task :: "nat \<Rightarrow> real \<Rightarrow> nat \<Rightarrow> string \<Rightarrow> TaskPriority \<Rightarrow> real option \<Rightarrow> AsyncTaskManager \<Rightarrow> string \<times> AsyncTaskManager" where
  "submit_task ms now task_func name prio tmo tm =
     (let tid = name @ ''_'' @ str_nat ms;
          task_info = \<lparr> task_id = tid, task_name = name, priority = prio, created_at = now,
                        timeout = tmo, retry_count = 0, max_retries = 3 \<rparr>;
          prio_value = - priority_value prio
      in (tid, tm\<lparr> task_queue := queue_put (prio_value, tid, task_func, task_info) (task_queue tm) \<rparr>))"

text \<open>
  \<open>_execute_task\<close> in two halves: what it does before it awaits the task body, and what
  it does once the body has returned, timed out or raised. The lines written to the logger
  are kept in \<open>event_log\<close>.
\<close>

definition begin_task :: "QueueItem \<Rightarrow> AsyncTaskManager \<Rightarrow> AsyncTaskManager" where
  "begin_task item tm =
     (case item of (pv, tid, task_func, task_info) \<Rightarrow>
        tm\<lparr> active_tasks := dict_set tid task_info (active_tasks tm),
            metrics := (metrics tm)\<lparr> metrics_active_tasks := metrics_active_tasks (metrics tm) + 1 \<rparr>,
            event_log := event_log tm @ [Started tid] \<rparr>)"

definition cleanup :: "string \<Rightarrow> AsyncTaskManager \<Rightarrow> AsyncTaskManager" where
  "cleanup tid tm =
     tm\<lparr> active_tasks := filter (\<lambda>(k, v). k \<noteq> tid) (active_tasks tm),
         metrics := (metrics tm)\<lparr> metrics_active_tasks := metrics_active_tasks (metrics tm) - 1 \<rparr> \<rparr>"

definition end_task :: "Outcome \<Rightarrow> real \<Rightarrow> QueueItem \<Rightarrow> AsyncTaskManager \<Rightarrow> AsyncTaskManager" where
  "end_task outcome execution_time item tm =
     (case item of (pv, tid, task_func, task_info) \<Rightarrow>
        cleanup tid
          (case outcome of
             Returned \<Rightarrow>
               tm\<lparr> metrics := record_task_completion (task_name task_info) execution_time (metrics tm),
                   event_log := event_log tm @ [Completed tid] \<rparr>
           | TimedOut \<Rightarrow>
               (let tm1 = tm\<lparr> metrics := record_error ''timeout'' (metrics tm),
                               event_log := event_log tm @ [Timeout tid] \<rparr>
                in if retry_count task_info < max_retries task_info then
                     (let task_info' = task_info\<lparr> retry_count := retry_count task_info + 1 \<rparr>
                      in tm1\<lparr> task_queue :=
                                 queue_put (- priority_value (priority task_info'), tid, task_func,
                                            task_info') (task_queue tm1),
                               event_log := event_log tm1 @ [Retry tid (retry_count task_info')] \<rparr>)
                   else tm1)
           | Raised \<Rightarrow>
               tm\<lparr> metrics := record_error ''execution_error'' (metrics tm),
                   event_log := event_log tm @ [Failed tid] \<rparr>))"

definition execute_task :: "Outcome \<Rightarrow> real \<Rightarrow> QueueItem \<Rightarrow> AsyncTaskManager \<Rightarrow> AsyncTaskManager" where
  "execute_task outcome execution_time item tm = end_task outcome execution_time item (begin_task item tm)"

text \<open>
  One pass of the body of \<open>_worker_loop\<close>. An empty queue makes \<open>get\<close> time out after a
  second and the pass ends. Otherwise the entry is taken, the semaphore is acquired, the
  task is executed and the semaphore is released; with no permit to acquire the worker
  waits for ever, which is the result \<open>None\<close>. \<open>behaviour tid n\<close> is what the body of the
  task \<open>tid\<close> does when it is run with \<open>retry_count = n\<close>.
\<close>

definition worker_pass :: "(string \<Rightarrow> int \<Rightarrow> Outcome) \<Rightarrow> AsyncTaskManager \<Rightarrow> AsyncTaskManager option" where
  "worker_pass behaviour tm =
     (case task_queue tm of
        [] \<Rightarrow> Some tm
      | item # rest \<Rightarrow>
          (case item of (pv, tid, task_func, task_info) \<Rightarrow>
             if semaphore tm \<le> 0 then None
             else
               (let tm1 = tm\<lparr> task_queue := rest, semaphore := semaphore tm - 1 \<rparr>;
                    tm2 = execute_task (behaviour tid (retry_count task_info)) 0 item tm1
                in Some (tm2\<lparr> semaphore := semaphore tm2 + 1 \<rparr>))))"

fun worker_loop :: "nat \<Rightarrow> (string \<Rightarrow> int \<Rightarrow> Outcome) \<Rightarrow> AsyncTaskManager \<Rightarrow> AsyncTaskManager option" where
  "worker_loop 0 behaviour tm = Some tm"
| "worker_loop (Suc fuel) behaviour tm =
     (if is_running tm then
        (case worker_pass behaviour tm of
           None \<Rightarrow> None
         | Some tm' \<Rightarrow> worker_loop fuel behaviour tm')
      else Some tm)"

text \<open>
  The same worker in small steps, with calls of \<open>submit_task\<close>, \<open>start\<close> and \<open>stop\<close> from
  other coroutines in between. The worker is \<open>Stopped\<close> (no worker task exists), \<open>Idle\<close>
  (waiting on the queue), \<open>Waiting\<close> for the semaphore with an entry in hand, or
  \<open>Executing\<close> an entry. \<open>stop\<close> cancels the worker task: a worker that is executing then
  runs the \<open>finally\<close> block of \<open>_execute_task\<close> and gives the permit back.
\<close>

datatype Phase = Stopped | Idle | Waiting QueueItem | Executing QueueItem

inductive engine_step :: "Phase \<times> AsyncTaskManager \<Rightarrow> Phase \<times> AsyncTaskManager \<Rightarrow> bool" where
  submit: "engine_step (ph, tm) (ph, snd (submit_task ms now task_func name prio tmo tm))"
| start: "\<not> is_running tm \<Longrightarrow> engine_step (Stopped, tm) (Idle, tm\<lparr> is_running := True \<rparr>)"
| dequeue: "is_running tm \<Longrightarrow> task_queue tm = item # rest \<Longrightarrow>
            engine_step (Idle, tm) (Waiting item, tm\<lparr> task_queue := rest \<rparr>)"
| exit_loop: "\<not> is_running tm \<Longrightarrow> engine_step (Idle, tm) (Stopped, tm)"
| acquire: "semaphore tm > 0 \<Longrightarrow>
            engine_step (Waiting item, tm)
                        (Executing item, begin_task item (tm\<lparr> semaphore := semaphore tm - 1 \<rparr>))"
| finish: "tm' = end_task outcome t item tm \<Longrightarrow>
           engine_step (Executing item, tm) (Idle, tm'\<lparr> semaphore := semaphore tm' + 1 \<rparr>)"
| stop_idle: "engine_step (Idle, tm) (Stopped, tm\<lparr> is_running := False \<rparr>)"
| stop_waiting: "engine_step (Waiting item, tm) (Stopped, tm\<lparr> is_running := False \<rparr>)"
| stop_executing: "tm' = cleanup (fst (snd item)) tm \<Longrightarrow>
                   engine_step (Executing item, tm)
                               (Stopped, tm'\<lparr> is_running := False, semaphore := semaphore tm' + 1 \<rparr>)"

inductive reachable :: "int \<Rightarrow> Phase \<times> AsyncTaskManager \<Rightarrow> bool" where
  init: "reachable n (Stopped, new_AsyncTaskManager n)"
| step: "reachable n c \<Longrightarrow> engine_step c c' \<Longrightarrow> reachable n c'"

section \<open>Adjusted activity rate\<close>

text \<open>
  C1. For every agent state and every hour of the day, \<open>get_adjusted_activity_rate\<close> lies in
  the interval from 0 to 1 and is the clamp to that interval of the product of the base rate,
  the time factor, the mood factor, the energy factor and the mode factor, where the mode
  factor is 1.0 for Normal, 1.3 for Energetic, 0.8 for Calm, 0.4 for Sleepy, 1.5 for Social
  and 0.9 for Focused.
\<close>

theorem get_adjusted_activity_rate_clamp:
  "0 \<le> get_adjusted_activity_rate h s \<and> get_adjusted_activity_rate h s \<le> 1 \<and>
   get_adjusted_activity_rate h s =
     max 0 (min 1 (activity_rate s * get_current_time_factor h s * get_mood_factor s *
                   get_energy_factor s *
                   (case activity_mode s of
                      NORMAL \<Rightarrow> 1 | ENERGETIC \<Rightarrow> 13 / 10 | CALM \<Rightarrow> 8 / 10
                    | SLEEPY \<Rightarrow> 4 / 10 | SOCIAL \<Rightarrow> 15 / 10 | FOCUSED \<Rightarrow> 9 / 10)))"
  by (cases "activity_mode s")
     (simp_all add: get_adjusted_activity_rate_def mode_multipliers_def Let_def)

section \<open>Properties that every agent state keeps\<close>

lemma all_states_map_states:
  "all_states P m \<Longrightarrow> (\<And>k st. P st \<Longrightarrow> P (f k st)) \<Longrightarrow> all_states P (map_states f m)"
  by (auto simp: all_states_def map_states_def list_all_iff)

lemma all_states_modify_state:
  "all_states P m \<Longrightarrow> (\<And>st. P st \<Longrightarrow> P (f st)) \<Longrightarrow> all_states P (modify_state bid f m)"
  unfolding modify_state_def by (rule all_states_map_states) auto

lemma all_states_dict_set:
  "list_all (\<lambda>(k, st). P st) xs \<Longrightarrow> P v \<Longrightarrow> list_all (\<lambda>(k, st). P st) (dict_set k v xs)"
proof -
  assume a: "list_all (\<lambda>(k, st). P st) xs" and v: "P v"
  have "list_all (\<lambda>(k, st). P st) (map (\<lambda>(k', v'). if k' = k then (k', v) else (k', v')) xs)"
    using a v by (induction xs) (auto split: if_splits)
  then show ?thesis using a v by (simp add: dict_set_def)
qed

lemma all_states_fold:
  "all_states P m \<Longrightarrow> (\<And>x m. all_states P m \<Longrightarrow> all_states P (f x m)) \<Longrightarrow> all_states P (fold f xs m)"
  by (induction xs arbitrary: m) auto

lemma all_states_offline_each:
  "all_states P m \<Longrightarrow> (\<And>b m. all_states P m \<Longrightarrow> all_states P (set_bot_offline now b m)) \<Longrightarrow>
   list_all (all_states P) (offline_each now bs m)"
  by (induction bs arbitrary: m) (auto simp: Let_def)

lemma all_states_online_each:
  "all_states P m \<Longrightarrow> (\<And>b m. all_states P m \<Longrightarrow> all_states P (set_bot_online now b m)) \<Longrightarrow>
   list_all (all_states P) (online_each now bs m)"
  by (induction bs arbitrary: m) (auto simp: Let_def)

lemma all_states_bot_states_cong:
  "bot_states m' = bot_states m \<Longrightarrow> all_states P m' = all_states P m"
  by (simp add: all_states_def)

lemma all_states_rotate_trace:
  assumes "all_states P m"
    and off: "\<And>t b m. all_states P m \<Longrightarrow> all_states P (set_bot_offline t b m)"
    and on: "\<And>t b m. all_states P m \<Longrightarrow> all_states P (set_bot_online t b m)"
  shows "list_all (all_states P) (rotate_trace now d m)"
proof -
  have m0: "all_states P (m\<lparr>last_rotation := now\<rparr>)"
    using assms(1) by (simp add: all_states_def)
  have offs: "\<And>bs. list_all (all_states P) (offline_each now bs (m\<lparr>last_rotation := now\<rparr>))"
    using m0 off by (rule all_states_offline_each)
  have ons: "\<And>bs. list_all (all_states P) (online_each now bs (m\<lparr>last_rotation := now\<rparr>))"
    using m0 on by (rule all_states_online_each)
  have lastok: "\<And>bs. all_states P (last (m\<lparr>last_rotation := now\<rparr> # offline_each now bs (m\<lparr>last_rotation := now\<rparr>)))"
    using m0 offs by (metis last_in_set list.distinct(1) list.pred_inject(2) list_all_iff)
  have ons2: "\<And>bs cs. list_all (all_states P) (online_each (now + 5) cs
       (last (m\<lparr>last_rotation := now\<rparr> # offline_each now bs (m\<lparr>last_rotation := now\<rparr>))))"
    using lastok on by (rule all_states_online_each)
  show ?thesis
    unfolding rotate_trace_def Let_def
    using assms(1) m0 offs ons ons2
    by (auto split: sum.splits simp del: last.simps)
qed

lemma all_states_rotate_online_bots:
  assumes "all_states P m"
    and off: "\<And>t b m. all_states P m \<Longrightarrow> all_states P (set_bot_offline t b m)"
    and on: "\<And>t b m. all_states P m \<Longrightarrow> all_states P (set_bot_online t b m)"
  shows "all_states P (rotate_online_bots now d m)"
proof -
  have "rotate_trace now d m \<noteq> []"
    unfolding rotate_trace_def Let_def by (auto split: sum.splits)
  then show ?thesis
    unfolding rotate_online_bots_def
    using all_states_rotate_trace[OF assms, of now d]
    by (metis last_in_set list_all_iff)
qed

subsection \<open>Energy and social factor stay between 0 and 100\<close>

lemma lv_other_fields:
  "levels_in_range (st\<lparr>mood_state := a1\<rparr>) = levels_in_range st"
  "levels_in_range (st\<lparr>activity_mode := a2\<rparr>) = levels_in_range st"
  "levels_in_range (st\<lparr>positive_interactions := a3\<rparr>) = levels_in_range st"
  "levels_in_range (st\<lparr>negative_interactions := a4\<rparr>) = levels_in_range st"
  "levels_in_range (st\<lparr>last_mood_change := a5\<rparr>) = levels_in_range st"
  "levels_in_range (st\<lparr>conversation_count_today := a6\<rparr>) = levels_in_range st"
  "levels_in_range (st\<lparr>last_activity := a7\<rparr>) = levels_in_range st"
  "levels_in_range (st\<lparr>total_messages := a8\<rparr>) = levels_in_range st"
  "levels_in_range (st\<lparr>is_active := a9\<rparr>) = levels_in_range st"
  "levels_in_range (st\<lparr>offline_since := a10\<rparr>) = levels_in_range st"
  "levels_in_range (st\<lparr>activity_rate := a11\<rparr>) = levels_in_range st"
  by (simp_all add: levels_in_range_def)

lemma lv_energy_eq:
  "levels_in_range (st\<lparr>energy_level := e\<rparr>) \<longleftrightarrow>
     0 \<le> e \<and> e \<le> 100 \<and> 0 \<le> social_factor st \<and> social_factor st \<le> 100"
  by (simp add: levels_in_range_def)

lemma lv_social_eq:
  "levels_in_range (st\<lparr>social_factor := e\<rparr>) \<longleftrightarrow>
     0 \<le> energy_level st \<and> energy_level st \<le> 100 \<and> 0 \<le> e \<and> e \<le> 100"
  by (simp add: levels_in_range_def)

lemma lv_bounds:
  "levels_in_range st \<Longrightarrow> 0 \<le> energy_level st"
  "levels_in_range st \<Longrightarrow> energy_level st \<le> 100"
  "levels_in_range st \<Longrightarrow> 0 \<le> social_factor st"
  "levels_in_range st \<Longrightarrow> social_factor st \<le> 100"
  by (simp_all add: levels_in_range_def)

lemma lv_mood_positive:
  "levels_in_range st \<Longrightarrow> 0 \<le> uniform_energy d \<Longrightarrow> levels_in_range (mood_positive d st)"
  by (simp add: mood_positive_def Let_def lv_other_fields lv_energy_eq lv_bounds)

lemma lv_mood_negative:
  assumes "levels_in_range st" "0 \<le> uniform_energy d"
  shows "levels_in_range (mood_negative d st)"
proof -
  have "energy_level st - uniform_energy d \<le> 100"
    using assms lv_bounds(2)[of st] by linarith
  then show ?thesis
    using assms by (simp add: mood_negative_def Let_def lv_other_fields lv_energy_eq lv_bounds)
qed

lemma lv_natural_mood_change:
  assumes "levels_in_range st"
  shows "levels_in_range (natural_mood_change h d st)"
proof -
  have "energy_level st \<le> 110"
    using assms lv_bounds(2)[of st] by linarith
  then show ?thesis
    using assms by (simp add: natural_mood_change_def Let_def lv_other_fields lv_energy_eq lv_bounds)
qed

lemma lv_update_mood:
  assumes "mood_draws_in_range it d" "levels_in_range st"
  shows "levels_in_range (update_mood now h d it st)"
proof -
  define s1 where "s1 = (if it = ''positive'' then mood_positive d st
                else if it = ''negative'' then mood_negative d st else st)"
  have s1: "levels_in_range s1"
  proof (cases "it = ''positive''")
    case True
    then have "0 \<le> uniform_energy d" using assms(1) by (simp add: mood_draws_in_range_def)
    then show ?thesis using True assms(2) by (simp add: s1_def lv_mood_positive)
  next
    case False
    show ?thesis
    proof (cases "it = ''negative''")
      case True
      then have "0 \<le> uniform_energy d" using assms(1) by (simp add: mood_draws_in_range_def)
      then show ?thesis using True assms(2) by (simp add: s1_def lv_mood_negative)
    next
      case False
      then show ?thesis using \<open>it \<noteq> ''positive''\<close> assms(2) by (simp add: s1_def)
    qed
  qed
  have eq: "update_mood now h d it st =
        (if (now - last_mood_change s1) / 3600 > 2 then
           (if random_natural d < 1 / 10
            then (natural_mood_change h d s1)\<lparr>last_mood_change := now\<rparr> else s1)
         else s1)"
    unfolding update_mood_def Let_def s1_def by (rule refl)
  show ?thesis
    unfolding eq using s1 by (simp add: lv_natural_mood_change lv_other_fields)
qed

lemma lv_update_mood_neutral:
  "levels_in_range st \<Longrightarrow> levels_in_range (update_mood now h d ''neutral'' st)"
  by (rule lv_update_mood) (simp_all add: mood_draws_in_range_def)

lemma lv_update_activity_mode:
  "levels_in_range st \<Longrightarrow> levels_in_range (update_activity_mode h st)"
  by (auto simp: update_activity_mode_def levels_in_range_def Let_def)

lemma lv_daily_reset:
  "20 \<le> uniform_recover d \<Longrightarrow> uniform_recover d \<le> 30 \<Longrightarrow> levels_in_range st \<Longrightarrow> levels_in_range (daily_reset d st)"
  by (auto simp: daily_reset_def levels_in_range_def Let_def)

lemma lv_update_one_state:
  "levels_in_range st \<Longrightarrow> levels_in_range (update_one_state tr now h d st)"
proof -
  assume a: "levels_in_range st"
  define st1 where "st1 = (if tr then update_activity_mode h (update_mood now h d ''neutral'' st) else st)"
  define t where "t = (now - last_activity st1) / 3600"
  have s1: "levels_in_range st1"
    using a by (simp add: st1_def lv_update_activity_mode lv_update_mood_neutral)
  have eq: "update_one_state tr now h d st =
        (if t > 1 then st1\<lparr>energy_level := max 0 (energy_level st1 - min (t * 2) 10)\<rparr> else st1)"
    unfolding update_one_state_def Let_def st1_def t_def by (rule refl)
  have dec: "levels_in_range (st1\<lparr>energy_level := max 0 (energy_level st1 - min (t * 2) 10)\<rparr>)"
    if "t > 1"
    using s1 that by (auto simp: levels_in_range_def min_def max_def)
  show ?thesis
    by (cases "t > 1") (simp_all add: eq dec s1)
qed

lemma lv_manage_one:
  "levels_in_range st \<Longrightarrow> levels_in_range (manage_one m now h r st)"
  by (auto simp: manage_one_def levels_in_range_def Let_def)

lemma lv_new: "levels_in_range (new_ActivityState now bid rate a l)"
  by (simp add: new_ActivityState_def levels_in_range_def)

lemma lv_set_bot_offline:
  "all_states levels_in_range m \<Longrightarrow> all_states levels_in_range (set_bot_offline t b m)"
  unfolding set_bot_offline_def by (rule all_states_modify_state) (auto simp: levels_in_range_def)

lemma lv_set_bot_online:
  "all_states levels_in_range m \<Longrightarrow> all_states levels_in_range (set_bot_online t b m)"
  unfolding set_bot_online_def by (rule all_states_modify_state) (auto simp: levels_in_range_def)

lemma lv_register_bot:
  "all_states levels_in_range m \<Longrightarrow> all_states levels_in_range (register_bot now rate bid c m)"
  unfolding register_bot_def Let_def all_states_def
  by (cases c) (auto intro!: all_states_dict_set simp: new_ActivityState_def levels_in_range_def)

lemma lv_update_bot_activity:
  assumes "all_states levels_in_range m" "mood_draws_in_range it d" "1 \<le> u" "u \<le> 3"
  shows "all_states levels_in_range (update_bot_activity now h d u bid it uc m)"
proof -
  have step: "levels_in_range (st\<lparr>last_activity := now, total_messages := total_messages st + 1,
                conversation_count_today := conversation_count_today st + 1\<rparr>)"
    if "levels_in_range st" for st using that by (simp add: levels_in_range_def)
  have um: "levels_in_range (if enable_mood_tracking m then update_mood now h d it st else st)"
    if "levels_in_range st" for st using that assms(2) by (simp add: lv_update_mood)
  have soc: "levels_in_range (case uc of None \<Rightarrow> st | Some n \<Rightarrow>
               if n > 2 then st\<lparr>social_factor := min 100 (social_factor st + 2)\<rparr> else st)"
    if "levels_in_range st" for st using that by (auto simp: levels_in_range_def split: option.splits)
  have en: "levels_in_range (if it = ''positive'' then st\<lparr>energy_level := min 100 (energy_level st + u)\<rparr> else st)"
    if "levels_in_range st" for st using that assms(3) by (auto simp: levels_in_range_def)
  show ?thesis
    unfolding update_bot_activity_def Let_def
    using assms(1) by (auto intro!: all_states_modify_state en soc um step)
qed

lemma lv_force_mood_change:
  "all_states levels_in_range m \<Longrightarrow> all_states levels_in_range (force_mood_change now bid mood ch m)"
proof -
  assume a: "all_states levels_in_range m"
  have "levels_in_range (st\<lparr>mood_state := mood,
          energy_level := max 0 (min 100 (energy_level st + ch)), last_mood_change := now\<rparr>)"
    if "levels_in_range st" for st using that by (auto simp: levels_in_range_def)
  then have "all_states levels_in_range (modify_state bid (\<lambda>st. st\<lparr>mood_state := mood,
          energy_level := max 0 (min 100 (energy_level st + ch)), last_mood_change := now\<rparr>) m)"
    using a by (intro all_states_modify_state)
  then show ?thesis using a by (simp add: force_mood_change_def)
qed

lemma lv_on_user_interaction:
  assumes "all_states levels_in_range m" "mood_draws_in_range it d" "3 \<le> u" "u \<le> 8"
  shows "all_states levels_in_range (snd (on_user_interaction now h d u it m))"
proof -
  have step: "levels_in_range (st\<lparr>last_activity := now, total_messages := total_messages st + 1,
                conversation_count_today := conversation_count_today st + 1\<rparr>)"
    if "levels_in_range st" for st using that by (simp add: levels_in_range_def)
  have um: "levels_in_range (if enable_mood_tracking m then update_mood now h d it st else st)"
    if "levels_in_range st" for st using that assms(2) by (simp add: lv_update_mood)
  have en: "levels_in_range (st\<lparr>energy_level := min 100 (energy_level st + u)\<rparr>)"
    if "levels_in_range st" for st using that assms(3) by (auto simp: levels_in_range_def)
  show ?thesis
    unfolding on_user_interaction_def Let_def
    using assms(1) by (auto intro!: all_states_modify_state en um step)
qed

lemma lv_on_spontaneous_speech:
  assumes "all_states levels_in_range m" "1 \<le> u" "u \<le> 3"
  shows "all_states levels_in_range (snd (on_spontaneous_speech now u m))"
  unfolding on_spontaneous_speech_def
  using assms by (auto intro!: all_states_modify_state simp: levels_in_range_def)

lemma lv_check_daily_reset:
  assumes "all_states levels_in_range m" "\<forall>k. 20 \<le> uniform_recover (draws k) \<and> uniform_recover (draws k) \<le> 30"
  shows "all_states levels_in_range (check_daily_reset now draws m)"
proof -
  have "all_states levels_in_range (map_states (\<lambda>k st. daily_reset (draws k) st) m)"
    using assms by (auto intro!: all_states_map_states lv_daily_reset)
  then have "all_states levels_in_range
        ((map_states (\<lambda>k st. daily_reset (draws k) st) m)\<lparr>last_daily_reset := midnight now\<rparr>)"
    by (simp add: all_states_def)
  then show ?thesis
    using assms(1) by (simp add: check_daily_reset_def)
qed

lemma lv_update_activity_states:
  "all_states levels_in_range m \<Longrightarrow> all_states levels_in_range (update_activity_states now h draws m)"
  unfolding update_activity_states_def
  by (auto intro!: all_states_map_states lv_update_one_state)

lemma lv_rates_loop:
  "all_states levels_in_range m \<Longrightarrow> all_states levels_in_range (snd (rates_loop rates bs m))"
proof (induction bs arbitrary: m)
  case Nil then show ?case by simp
next
  case (Cons b bs)
  have m1: "all_states levels_in_range (modify_state b (\<lambda>st. st\<lparr>activity_rate := rates b\<rparr>) m)"
    using Cons.prems by (rule all_states_modify_state) (simp add: levels_in_range_def)
  have m2: "all_states levels_in_range (modify_state b (\<lambda>st. st\<lparr>activity_rate := activity_rate st * (7 / 10)\<rparr>) m')"
    if "all_states levels_in_range m'" for m'
    using that by (rule all_states_modify_state) (simp add: levels_in_range_def)
  show ?case
    using m1 m2[OF m1] Cons.IH
    by (auto simp: Let_def split: sum.splits)
qed

lemma lv_update_activity_rates:
  "all_states levels_in_range m \<Longrightarrow> all_states levels_in_range (snd (update_activity_rates now rates ri m))"
  using lv_rates_loop[of m rates "map fst (bot_states m)"]
  by (auto simp: update_activity_rates_def all_states_def split: prod.splits option.splits)

lemma lv_manage_offline_bots:
  "all_states levels_in_range m \<Longrightarrow> all_states levels_in_range (manage_offline_bots now h rnd m)"
  unfolding manage_offline_bots_def
  by (auto intro!: all_states_map_states lv_manage_one)

lemma lv_emergency_one:
  "all_states levels_in_range m \<Longrightarrow> all_states levels_in_range (emergency_one now b m)"
  unfolding emergency_one_def
  by (auto intro!: lv_set_bot_offline all_states_modify_state simp: levels_in_range_def)

lemma lv_emergency_scale_down:
  "all_states levels_in_range m \<Longrightarrow> all_states levels_in_range (emergency_scale_down now r m)"
  unfolding emergency_scale_down_def Let_def
  by (auto intro!: all_states_fold lv_emergency_one split: sum.splits)

lemma lv_monitor_performance:
  "all_states levels_in_range m \<Longrightarrow> all_states levels_in_range (snd (monitor_performance smp now r m))"
proof -
  assume a: "all_states levels_in_range m"
  have "all_states levels_in_range (m\<lparr>performance_monitor := pm\<rparr>)" for pm
    using a by (simp add: all_states_def)
  then show ?thesis
    using a by (auto simp: monitor_performance_def Let_def lv_emergency_scale_down split: sum.splits)
qed

lemma lv_apply_learned_patterns:
  "all_states levels_in_range m \<Longrightarrow> all_states levels_in_range (apply_learned_patterns h bid m)"
  unfolding apply_learned_patterns_def
  by (auto intro!: all_states_modify_state simp: levels_in_range_def split: option.splits)

lemma lv_learn_one:
  "all_states levels_in_range m \<Longrightarrow> all_states levels_in_range (learn_one h bid m)"
proof -
  assume a: "all_states levels_in_range m"
  have "all_states levels_in_range (m\<lparr>learned_patterns := lp\<rparr>)" for lp
    using a by (simp add: all_states_def)
  then show ?thesis
    using a by (auto simp: learn_one_def Let_def lv_apply_learned_patterns split: option.splits)
qed

lemma lv_learn_activity_patterns:
  "all_states levels_in_range m \<Longrightarrow> all_states levels_in_range (learn_activity_patterns h m)"
  unfolding learn_activity_patterns_def
  by (auto intro!: all_states_fold lv_learn_one)

lemma lv_apply_op:
  "draws_in_range op \<Longrightarrow> all_states levels_in_range m \<Longrightarrow> all_states levels_in_range (apply_op op m)"
  by (cases op)
     (simp_all add: lv_register_bot lv_set_bot_offline lv_set_bot_online lv_update_bot_activity
        lv_force_mood_change lv_on_user_interaction lv_on_spontaneous_speech lv_check_daily_reset
        lv_update_activity_states lv_update_activity_rates lv_manage_offline_bots
        all_states_rotate_online_bots lv_monitor_performance lv_emergency_scale_down
        lv_learn_activity_patterns lv_apply_learned_patterns)

lemma lv_run_ops:
  "list_all draws_in_range ops \<Longrightarrow> all_states levels_in_range m \<Longrightarrow> all_states levels_in_range (run_ops ops m)"
  unfolding run_ops_def
  by (induction ops arbitrary: m) (auto simp: lv_apply_op)

subsection \<open>Offline agents and \<open>offline_since\<close>\<close>

lemma pc_other_fields:
  "presence_consistent (st\<lparr>mood_state := a1\<rparr>) = presence_consistent st"
  "presence_consistent (st\<lparr>activity_mode := a2\<rparr>) = presence_consistent st"
  "presence_consistent (st\<lparr>positive_interactions := a3\<rparr>) = presence_consistent st"
  "presence_consistent (st\<lparr>negative_interactions := a4\<rparr>) = presence_consistent st"
  "presence_consistent (st\<lparr>last_mood_change := a5\<rparr>) = presence_consistent st"
  "presence_consistent (st\<lparr>conversation_count_today := a6\<rparr>) = presence_consistent st"
  "presence_consistent (st\<lparr>last_activity := a7\<rparr>) = presence_consistent st"
  "presence_consistent (st\<lparr>total_messages := a8\<rparr>) = presence_consistent st"
  "presence_consistent (st\<lparr>energy_level := a9\<rparr>) = presence_consistent st"
  "presence_consistent (st\<lparr>social_factor := a10\<rparr>) = presence_consistent st"
  "presence_consistent (st\<lparr>activity_rate := a11\<rparr>) = presence_consistent st"
  "presence_consistent (st\<lparr>activity_patterns := a12\<rparr>) = presence_consistent st"
  by (simp_all add: presence_consistent_def)

lemma pc_offline: "presence_consistent (st\<lparr>is_active := False, offline_since := Some t\<rparr>)"
  by (simp add: presence_consistent_def)

lemma pc_online: "presence_consistent (st\<lparr>is_active := True, offline_since := None, last_activity := t\<rparr>)"
  by (simp add: presence_consistent_def)

lemma pc_mood_positive:
  "presence_consistent st \<Longrightarrow> presence_consistent (mood_positive d st)"
  by (simp add: mood_positive_def Let_def pc_other_fields)

lemma pc_mood_negative:
  "presence_consistent st \<Longrightarrow> presence_consistent (mood_negative d st)"
  by (simp add: mood_negative_def Let_def pc_other_fields)

lemma pc_natural_mood_change:
  "presence_consistent st \<Longrightarrow> presence_consistent (natural_mood_change h d st)"
  by (simp add: natural_mood_change_def Let_def pc_other_fields)

lemma pc_update_mood:
  assumes "presence_consistent st"
  shows "presence_consistent (update_mood now h d it st)"
proof -
  define s1 where "s1 = (if it = ''positive'' then mood_positive d st
                else if it = ''negative'' then mood_negative d st else st)"
  have s1: "presence_consistent s1"
    using assms by (simp add: s1_def pc_mood_positive pc_mood_negative)
  have eq: "update_mood now h d it st =
        (if (now - last_mood_change s1) / 3600 > 2 then
           (if random_natural d < 1 / 10
            then (natural_mood_change h d s1)\<lparr>last_mood_change := now\<rparr> else s1)
         else s1)"
    unfolding update_mood_def Let_def s1_def by (rule refl)
  show ?thesis
    unfolding eq using s1 by (simp add: pc_natural_mood_change pc_other_fields)
qed

lemma pc_update_activity_mode:
  "presence_consistent st \<Longrightarrow> presence_consistent (update_activity_mode h st)"
  by (simp add: update_activity_mode_def Let_def pc_other_fields)

lemma pc_daily_reset:
  "presence_consistent st \<Longrightarrow> presence_consistent (daily_reset d st)"
  by (simp add: daily_reset_def Let_def pc_other_fields)

lemma pc_update_one_state:
  "presence_consistent st \<Longrightarrow> presence_consistent (update_one_state tr now h d st)"
  by (simp add: update_one_state_def Let_def pc_other_fields pc_update_activity_mode pc_update_mood)

lemma pc_manage_one:
  "presence_consistent st \<Longrightarrow> presence_consistent (manage_one m now h r st)"
  by (simp add: manage_one_def Let_def pc_offline pc_online)

lemma pc_set_bot_offline:
  "all_states presence_consistent m \<Longrightarrow> all_states presence_consistent (set_bot_offline t b m)"
  unfolding set_bot_offline_def by (rule all_states_modify_state, assumption, rule pc_offline)

lemma pc_set_bot_online:
  "all_states presence_consistent m \<Longrightarrow> all_states presence_consistent (set_bot_online t b m)"
  unfolding set_bot_online_def by (rule all_states_modify_state, assumption, rule pc_online)

lemma pc_new: "presence_consistent (new_ActivityState now bid rate True l)"
  by (simp add: new_ActivityState_def presence_consistent_def)

lemma pc_register_bot:
  "all_states presence_consistent m \<Longrightarrow> all_states presence_consistent (register_bot now rate bid c m)"
  unfolding register_bot_def Let_def all_states_def
  by (cases c) (auto intro!: all_states_dict_set simp: pc_new pc_other_fields)

lemma pc_update_bot_activity:
  assumes "all_states presence_consistent m"
  shows "all_states presence_consistent (update_bot_activity now h d u bid it uc m)"
proof -
  have step: "presence_consistent (st\<lparr>last_activity := now, total_messages := total_messages st + 1,
                conversation_count_today := conversation_count_today st + 1\<rparr>)"
    if "presence_consistent st" for st using that by (simp add: pc_other_fields)
  have um: "presence_consistent (if enable_mood_tracking m then update_mood now h d it st else st)"
    if "presence_consistent st" for st using that by (simp add: pc_update_mood)
  have soc: "presence_consistent (case uc of None \<Rightarrow> st | Some n \<Rightarrow>
               if n > 2 then st\<lparr>social_factor := min 100 (social_factor st + 2)\<rparr> else st)"
    if "presence_consistent st" for st using that by (simp add: pc_other_fields split: option.splits)
  have en: "presence_consistent (if it = ''positive'' then st\<lparr>energy_level := min 100 (energy_level st + u)\<rparr> else st)"
    if "presence_consistent st" for st using that by (simp add: pc_other_fields)
  show ?thesis
    unfolding update_bot_activity_def Let_def
    using assms(1) by (auto intro!: all_states_modify_state en soc um step)
qed

lemma pc_force_mood_change:
  "all_states presence_consistent m \<Longrightarrow> all_states presence_consistent (force_mood_change now bid mood ch m)"
proof -
  assume a: "all_states presence_consistent m"
  have "all_states presence_consistent (modify_state bid (\<lambda>st. st\<lparr>mood_state := mood,
          energy_level := max 0 (min 100 (energy_level st + ch)), last_mood_change := now\<rparr>) m)"
    using a by (rule all_states_modify_state) (simp add: pc_other_fields)
  then show ?thesis using a by (simp add: force_mood_change_def)
qed

lemma pc_on_user_interaction:
  assumes "all_states presence_consistent m"
  shows "all_states presence_consistent (snd (on_user_interaction now h d u it m))"
proof -
  have step: "presence_consistent (st\<lparr>last_activity := now, total_messages := total_messages st + 1,
                conversation_count_today := conversation_count_today st + 1\<rparr>)"
    if "presence_consistent st" for st using that by (simp add: pc_other_fields)
  have um: "presence_consistent (if enable_mood_tracking m then update_mood now h d it st else st)"
    if "presence_consistent st" for st using that by (simp add: pc_update_mood)
  have en: "presence_consistent (st\<lparr>energy_level := min 100 (energy_level st + u)\<rparr>)"
    if "presence_consistent st" for st using that by (simp add: pc_other_fields)
  show ?thesis
    unfolding on_user_interaction_def Let_def
    using assms(1) by (auto intro!: all_states_modify_state en um step)
qed

lemma pc_on_spontaneous_speech:
  assumes "all_states presence_consistent m"
  shows "all_states presence_consistent (snd (on_spontaneous_speech now u m))"
proof -
  have "all_states presence_consistent (modify_state (self_bot_id m)
           (\<lambda>st. st\<lparr>last_activity := now, total_messages := total_messages st + 1,
                      energy_level := max 0 (energy_level st - u)\<rparr>) m)"
    using assms by (rule all_states_modify_state) (simp add: pc_other_fields)
  then show ?thesis using assms by (simp add: on_spontaneous_speech_def)
qed

lemma pc_check_daily_reset:
  assumes "all_states presence_consistent m"
  shows "all_states presence_consistent (check_daily_reset now draws m)"
proof -
  have "all_states presence_consistent (map_states (\<lambda>k st. daily_reset (draws k) st) m)"
    using assms by (auto intro!: all_states_map_states pc_daily_reset)
  then have "all_states presence_consistent
        ((map_states (\<lambda>k st. daily_reset (draws k) st) m)\<lparr>last_daily_reset := midnight now\<rparr>)"
    by (simp add: all_states_def)
  then show ?thesis
    using assms(1) by (simp add: check_daily_reset_def)
qed

lemma pc_update_activity_states:
  "all_states presence_consistent m \<Longrightarrow> all_states presence_consistent (update_activity_states now h draws m)"
  unfolding update_activity_states_def
  by (auto intro!: all_states_map_states pc_update_one_state)

lemma pc_rates_loop:
  "all_states presence_consistent m \<Longrightarrow> all_states presence_consistent (snd (rates_loop rates bs m))"
proof (induction bs arbitrary: m)
  case Nil then show ?case by simp
next
  case (Cons b bs)
  have m1: "all_states presence_consistent (modify_state b (\<lambda>st. st\<lparr>activity_rate := rates b\<rparr>) m)"
    using Cons.prems by (rule all_states_modify_state) (simp add: pc_other_fields)
  have m2: "all_states presence_consistent (modify_state b (\<lambda>st. st\<lparr>activity_rate := activity_rate st * (7 / 10)\<rparr>) m')"
    if "all_states presence_consistent m'" for m'
    using that by (rule all_states_modify_state) (simp add: pc_other_fields)
  show ?case
    using m1 m2[OF m1] Cons.IH
    by (auto simp: Let_def split: sum.splits)
qed

lemma pc_update_activity_rates:
  "all_states presence_consistent m \<Longrightarrow> all_states presence_consistent (snd (update_activity_rates now rates ri m))"
  using pc_rates_loop[of m rates "map fst (bot_states m)"]
  by (auto simp: update_activity_rates_def all_states_def split: prod.splits option.splits)

lemma pc_manage_offline_bots:
  "all_states presence_consistent m \<Longrightarrow> all_states presence_consistent (manage_offline_bots now h rnd m)"
  unfolding manage_offline_bots_def
  by (auto intro!: all_states_map_states pc_manage_one)

lemma pc_emergency_one:
  "all_states presence_consistent m \<Longrightarrow> all_states presence_consistent (emergency_one now b m)"
  unfolding emergency_one_def
  by (intro pc_set_bot_offline all_states_modify_state) (simp_all add: pc_other_fields)

lemma pc_emergency_scale_down:
  "all_states presence_consistent m \<Longrightarrow> all_states presence_consistent (emergency_scale_down now r m)"
  unfolding emergency_scale_down_def Let_def
  by (auto intro!: all_states_fold pc_emergency_one split: sum.splits)

lemma pc_monitor_performance:
  "all_states presence_consistent m \<Longrightarrow> all_states presence_consistent (snd (monitor_performance smp now r m))"
proof -
  assume a: "all_states presence_consistent m"
  have "all_states presence_consistent (m\<lparr>performance_monitor := pm\<rparr>)" for pm
    using a by (simp add: all_states_def)
  then show ?thesis
    using a by (auto simp: monitor_performance_def Let_def pc_emergency_scale_down split: sum.splits)
qed

lemma pc_apply_learned_patterns:
  "all_states presence_consistent m \<Longrightarrow> all_states presence_consistent (apply_learned_patterns h bid m)"
  unfolding apply_learned_patterns_def
  by (auto intro!: all_states_modify_state simp: pc_other_fields split: option.splits)

lemma pc_learn_one:
  "all_states presence_consistent m \<Longrightarrow> all_states presence_consistent (learn_one h bid m)"
proof -
  assume a: "all_states presence_consistent m"
  have "all_states presence_consistent (m\<lparr>learned_patterns := lp\<rparr>)" for lp
    using a by (simp add: all_states_def)
  then show ?thesis
    using a by (auto simp: learn_one_def Let_def pc_apply_learned_patterns split: option.splits)
qed

lemma pc_learn_activity_patterns:
  "all_states presence_consistent m \<Longrightarrow> all_states presence_consistent (learn_activity_patterns h m)"
  unfolding learn_activity_patterns_def
  by (auto intro!: all_states_fold pc_learn_one)

lemma pc_apply_op:
  "all_states presence_consistent m \<Longrightarrow> all_states presence_consistent (apply_op op m)"
  by (cases op)
     (simp_all add: pc_register_bot pc_set_bot_offline pc_set_bot_online pc_update_bot_activity
        pc_force_mood_change pc_on_user_interaction pc_on_spontaneous_speech pc_check_daily_reset
        pc_update_activity_states pc_update_activity_rates pc_manage_offline_bots
        all_states_rotate_online_bots pc_monitor_performance pc_emergency_scale_down
        pc_learn_activity_patterns pc_apply_learned_patterns)

lemma pc_run_ops:
  "all_states presence_consistent m \<Longrightarrow> all_states presence_consistent (run_ops ops m)"
  unfolding run_ops_def
  by (induction ops arbitrary: m) (auto simp: pc_apply_op)

lemma all_states_new: "all_states P (new_BotActivityManager now r cfg b db)"
  by (simp add: all_states_def new_BotActivityManager_def)

lemma all_statesD: "all_states P m \<Longrightarrow> (bid, st) \<in> set (bot_states m) \<Longrightarrow> P st"
  by (auto simp: all_states_def list_all_iff)

text \<open>
  C9. In every agent state reached from a newly built manager by any sequence of
  registrations, calls of \<open>_set_bot_online\<close> and \<open>_set_bot_offline\<close>, and of the other
  methods of the manager, \<open>is_active\<close> is false exactly when \<open>offline_since\<close> is not
  \<open>None\<close>.
\<close>

theorem offline_iff_offline_since:
  assumes "(bid, st) \<in> set (bot_states (run_ops ops (new_BotActivityManager now r cfg b db)))"
  shows "(is_active st = False) = (offline_since st \<noteq> None)"
proof -
  have "all_states presence_consistent (run_ops ops (new_BotActivityManager now r cfg b db))"
    by (rule pc_run_ops) (rule all_states_new)
  then have "presence_consistent st" using assms by (rule all_statesD)
  then show ?thesis by (simp add: presence_consistent_def)
qed

theorem offline_iff_offline_since_witness:
  "(''a'', \<lparr>bot_id = ''a'', activity_rate = 1 / 2, is_active = False,
      last_activity = 10, offline_since = Some 20, total_messages = 1,
      errors_count = 0, activity_mode = NORMAL, mood_state = HAPPY,
      energy_level = 55, social_factor = 52, last_mood_change = 0,
      conversation_count_today = 1, positive_interactions = 1,
      negative_interactions = 0,
      activity_patterns = \<lparr>morning = 4 / 5, afternoon = 1, evening = 9 / 10, night = 3 / 10\<rparr>\<rparr>)
    \<in> set (bot_states (run_ops
       [Op_register_bot 0 (1/2) ''a'' None,
        Op_update_bot_activity 10 12 \<lparr>uniform_energy = 3, random_transition = 0, choice_negative = 0,
            random_natural = 1, random_night = 1, choice_natural = 0\<rparr> 2 ''a'' ''positive'' (Some 3),
        Op_set_bot_offline 20 ''a'']
       (new_BotActivityManager 0 15 default_Config ''a'' False)))
   \<and> (False = False) = (Some (20::real) \<noteq> None)"
proof -
  have h: "(''a'', \<lparr>bot_id = ''a'', activity_rate = 1 / 2, is_active = False,
      last_activity = 10, offline_since = Some 20, total_messages = 1,
      errors_count = 0, activity_mode = NORMAL, mood_state = HAPPY,
      energy_level = 55, social_factor = 52, last_mood_change = 0,
      conversation_count_today = 1, positive_interactions = 1,
      negative_interactions = 0,
      activity_patterns = \<lparr>morning = 4 / 5, afternoon = 1, evening = 9 / 10, night = 3 / 10\<rparr>\<rparr>)
    \<in> set (bot_states (run_ops
       [Op_register_bot 0 (1/2) ''a'' None,
        Op_update_bot_activity 10 12 \<lparr>uniform_energy = 3, random_transition = 0, choice_negative = 0,
            random_natural = 1, random_night = 1, choice_natural = 0\<rparr> 2 ''a'' ''positive'' (Some 3),
        Op_set_bot_offline 20 ''a'']
       (new_BotActivityManager 0 15 default_Config ''a'' False)))"
    by (simp add: run_ops_def register_bot_def new_BotActivityManager_def new_ActivityState_def
        dict_set_def update_bot_activity_def modify_state_def map_states_def update_mood_def
        mood_positive_def set_bot_offline_def default_Config_def Let_def)
  from offline_iff_offline_since[OF h] h show ?thesis by simp
qed

text \<open>
  C7. For every agent, after any sequence of \<open>update_mood\<close> calls (through the
  callbacks and the state update step), applications of learned patterns, interaction
  callbacks, energy decay, daily resets and the other methods of the manager, with every
  random draw inside the range its call of \<open>random.uniform\<close> gives, \<open>energy_level\<close> and
  \<open>social_factor\<close> lie between 0 and 100.
\<close>

theorem levels_stay_in_range:
  assumes "list_all draws_in_range ops"
    and "(bid, st) \<in> set (bot_states (run_ops ops (new_BotActivityManager now r cfg b db)))"
  shows "0 \<le> energy_level st \<and> energy_level st \<le> 100 \<and>
         0 \<le> social_factor st \<and> social_factor st \<le> 100"
proof -
  have "all_states levels_in_range (run_ops ops (new_BotActivityManager now r cfg b db))"
    using assms(1) by (rule lv_run_ops) (rule all_states_new)
  then have "levels_in_range st" using assms(2) by (rule all_statesD)
  then show ?thesis by (simp add: levels_in_range_def)
qed

theorem levels_stay_in_range_witness:
  "list_all draws_in_range
     [Op_register_bot 0 (1/2) ''a'' None,
      Op_update_bot_activity 10 12 \<lparr>uniform_energy = 3, random_transition = 0, choice_negative = 0,
          random_natural = 1, random_night = 1, choice_natural = 0\<rparr> 2 ''a'' ''positive'' (Some 3),
      Op_on_spontaneous_speech 15 2]
   \<and> (''a'', \<lparr>bot_id = ''a'', activity_rate = 1 / 2, is_active = True,
      last_activity = 15, offline_since = None, total_messages = 2,
      errors_count = 0, activity_mode = NORMAL, mood_state = HAPPY,
      energy_level = 53, social_factor = 52, last_mood_change = 0,
      conversation_count_today = 1, positive_interactions = 1,
      negative_interactions = 0,
      activity_patterns = \<lparr>morning = 4 / 5, afternoon = 1, evening = 9 / 10, night = 3 / 10\<rparr>\<rparr>)
    \<in> set (bot_states (run_ops
       [Op_register_bot 0 (1/2) ''a'' None,
        Op_update_bot_activity 10 12 \<lparr>uniform_energy = 3, random_transition = 0, choice_negative = 0,
            random_natural = 1, random_night = 1, choice_natural = 0\<rparr> 2 ''a'' ''positive'' (Some 3),
        Op_on_spontaneous_speech 15 2]
       (new_BotActivityManager 0 15 default_Config ''a'' False)))
   \<and> (0::real) \<le> 53 \<and> (53::real) \<le> 100 \<and> (0::real) \<le> 52 \<and> (52::real) \<le> 100"
proof -
  have d: "list_all draws_in_range
     [Op_register_bot 0 (1/2) ''a'' None,
      Op_update_bot_activity 10 12 \<lparr>uniform_energy = 3, random_transition = 0, choice_negative = 0,
          random_natural = 1, random_night = 1, choice_natural = 0\<rparr> 2 ''a'' ''positive'' (Some 3),
      Op_on_spontaneous_speech 15 2]"
    by (simp add: mood_draws_in_range_def)
  have h: "(''a'', \<lparr>bot_id = ''a'', activity_rate = 1 / 2, is_active = True,
      last_activity = 15, offline_since = None, total_messages = 2,
      errors_count = 0, activity_mode = NORMAL, mood_state = HAPPY,
      energy_level = 53, social_factor = 52, last_mood_change = 0,
      conversation_count_today = 1, positive_interactions = 1,
      negative_interactions = 0,
      activity_patterns = \<lparr>morning = 4 / 5, afternoon = 1, evening = 9 / 10, night = 3 / 10\<rparr>\<rparr>)
    \<in> set (bot_states (run_ops
       [Op_register_bot 0 (1/2) ''a'' None,
        Op_update_bot_activity 10 12 \<lparr>uniform_energy = 3, random_transition = 0, choice_negative = 0,
            random_natural = 1, random_night = 1, choice_natural = 0\<rparr> 2 ''a'' ''positive'' (Some 3),
        Op_on_spontaneous_speech 15 2]
       (new_BotActivityManager 0 15 default_Config ''a'' False)))"
    by (simp add: run_ops_def register_bot_def new_BotActivityManager_def new_ActivityState_def
        dict_set_def update_bot_activity_def modify_state_def map_states_def update_mood_def
        mood_positive_def on_spontaneous_speech_def default_Config_def Let_def)
  from levels_stay_in_range[OF d h] d h show ?thesis by simp
qed

section \<open>Rotation\<close>

lemma pool_split:
  "j < length pool \<Longrightarrow> pool = take j pool @ pool ! j # drop (Suc j) pool"
  by (rule id_take_nth_drop)

lemma length_sample:
  "k \<le> length pool \<Longrightarrow> length (sample r pool k) = k"
proof (induction k arbitrary: pool)
  case 0 then show ?case by simp
next
  case (Suc k)
  then have ne: "pool \<noteq> []" by auto
  define j where "j = r k mod length pool"
  have j: "j < length pool" using ne by (simp add: j_def)
  have "length (take j pool @ drop (Suc j) pool) = length pool - 1" using j by simp
  then have "k \<le> length (take j pool @ drop (Suc j) pool)" using Suc.prems by simp
  then have "length (sample r (take j pool @ drop (Suc j) pool) k) = k" by (rule Suc.IH)
  then show ?case using ne by (simp add: Let_def j_def)
qed

lemma set_sample:
  "set (sample r pool k) \<subseteq> set pool"
proof (induction k arbitrary: pool)
  case 0 then show ?case by simp
next
  case (Suc k)
  show ?case
  proof (cases "pool = []")
    case True then show ?thesis by simp
  next
    case False
    define j where "j = r k mod length pool"
    have j: "j < length pool" using False by (simp add: j_def)
    have "set (take j pool @ drop (Suc j) pool) \<subseteq> set pool"
      using set_take_subset[of j pool] set_drop_subset[of "Suc j" pool] by auto
    then have "set (sample r (take j pool @ drop (Suc j) pool) k) \<subseteq> set pool"
      using Suc.IH[of "take j pool @ drop (Suc j) pool"] by blast
    moreover have "pool ! j \<in> set pool" using j by simp
    ultimately show ?thesis using False by (simp add: Let_def j_def)
  qed
qed

lemma distinct_sample:
  "distinct pool \<Longrightarrow> distinct (sample r pool k)"
proof (induction k arbitrary: pool)
  case 0 then show ?case by simp
next
  case (Suc k)
  show ?case
  proof (cases "pool = []")
    case True then show ?thesis by simp
  next
    case False
    define j where "j = r k mod length pool"
    define rest where "rest = take j pool @ drop (Suc j) pool"
    have j: "j < length pool" using False by (simp add: j_def)
    have "distinct (take j pool @ pool ! j # drop (Suc j) pool)"
      using Suc.prems pool_split[OF j] by simp
    then have d: "distinct rest" and n: "pool ! j \<notin> set rest"
      by (auto simp: rest_def)
    have "distinct (sample r rest k)" using d by (rule Suc.IH)
    moreover have "pool ! j \<notin> set (sample r rest k)"
      using n set_sample[of r rest k] by blast
    ultimately show ?thesis using False by (simp add: Let_def j_def rest_def)
  qed
qed

lemma random_sample_Inr:
  assumes "random_sample r pool k = Inr xs" "distinct pool"
  shows "int (length xs) = k \<and> distinct xs \<and> set xs \<subseteq> set pool"
proof -
  have k: "0 \<le> k" "k \<le> int (length pool)" and xs: "xs = sample r pool (nat k)"
    using assms(1) by (auto simp: random_sample_def split: if_splits)
  have "nat k \<le> length pool" using k by simp
  then have "length xs = nat k" unfolding xs by (rule length_sample)
  then show ?thesis
    using k xs distinct_sample[OF assms(2), of r "nat k"] set_sample[of r pool "nat k"] by simp
qed

lemma random_sample_ok:
  "0 \<le> k \<Longrightarrow> k \<le> int (length pool) \<Longrightarrow> random_sample r pool k = Inr (sample r pool (nat k))"
  by (simp add: random_sample_def)

lemma keys_map_states: "map fst (bot_states (map_states f m)) = map fst (bot_states m)"
  by (simp add: map_states_def case_prod_unfold comp_def)

lemma keys_set_bot_offline: "map fst (bot_states (set_bot_offline t b m)) = map fst (bot_states m)"
  by (simp add: set_bot_offline_def modify_state_def keys_map_states)

lemma keys_set_bot_online: "map fst (bot_states (set_bot_online t b m)) = map fst (bot_states m)"
  by (simp add: set_bot_online_def modify_state_def keys_map_states)

lemma active_upd_off:
  "(\<And>st. \<not> is_active (f st)) \<Longrightarrow>
   set (map fst (filter (\<lambda>(bid, st). is_active st)
          (map (\<lambda>(k, st). (k, if k = b then f st else st)) xs)))
   = set (map fst (filter (\<lambda>(bid, st). is_active st) xs)) - {b}"
proof (induction xs)
  case Nil then show ?case by simp
next
  case (Cons x xs)
  obtain k st where x: "x = (k, st)" by (cases x)
  show ?case
    using Cons.IH[OF Cons.prems] Cons.prems
    by (cases "k = b"; cases "is_active st") (simp_all add: x insert_Diff_if)
qed

lemma active_upd_on:
  "(\<And>st. is_active (f st)) \<Longrightarrow>
   set (map fst (filter (\<lambda>(bid, st). is_active st)
          (map (\<lambda>(k, st). (k, if k = b then f st else st)) xs)))
   = set (map fst (filter (\<lambda>(bid, st). is_active st) xs)) \<union> ({b} \<inter> set (map fst xs))"
proof (induction xs)
  case Nil then show ?case by simp
next
  case (Cons x xs)
  obtain k st where x: "x = (k, st)" by (cases x)
  show ?case
    using Cons.IH[OF Cons.prems] Cons.prems
    by (cases "k = b"; cases "is_active st") (auto simp: x)
qed

lemma active_set_bot_offline:
  "set (active_bots (set_bot_offline t b m)) = set (active_bots m) - {b}"
  unfolding active_bots_def set_bot_offline_def modify_state_def map_states_def
  using active_upd_off[of "\<lambda>st. st\<lparr>is_active := False, offline_since := Some t\<rparr>" b "bot_states m"]
  by simp

lemma active_set_bot_online:
  "set (active_bots (set_bot_online t b m)) = set (active_bots m) \<union> ({b} \<inter> set (map fst (bot_states m)))"
  unfolding active_bots_def set_bot_online_def modify_state_def map_states_def
  using active_upd_on[of "\<lambda>st. st\<lparr>is_active := True, offline_since := None, last_activity := t\<rparr>" b "bot_states m"]
  by simp

lemma distinct_active_bots:
  "distinct (map fst (bot_states m)) \<Longrightarrow> distinct (active_bots m)"
  by (simp add: active_bots_def distinct_map_filter)

lemma distinct_inactive_bots:
  "distinct (map fst (bot_states m)) \<Longrightarrow> distinct (inactive_bots m)"
  by (simp add: inactive_bots_def distinct_map_filter)

lemma inactive_set:
  "distinct (map fst (bot_states m)) \<Longrightarrow>
   set (inactive_bots m) = set (map fst (bot_states m)) - set (active_bots m)"
  by (auto simp: inactive_bots_def active_bots_def dest: eq_key_imp_eq_value)

lemma length_active_card:
  "distinct (map fst (bot_states m)) \<Longrightarrow> length (active_bots m) = card (set (active_bots m))"
  by (simp add: distinct_active_bots distinct_card)

lemma length_active_offline:
  assumes "distinct (map fst (bot_states m))" "b \<in> set (active_bots m)"
  shows "length (active_bots (set_bot_offline t b m)) = length (active_bots m) - 1"
proof -
  have "distinct (map fst (bot_states (set_bot_offline t b m)))"
    using assms(1) by (simp add: keys_set_bot_offline)
  then have "length (active_bots (set_bot_offline t b m)) = card (set (active_bots m) - {b})"
    by (simp add: length_active_card active_set_bot_offline)
  also have "\<dots> = card (set (active_bots m)) - 1"
    using assms(2) by simp
  finally show ?thesis using assms(1) by (simp add: length_active_card)
qed

lemma length_active_online:
  assumes "distinct (map fst (bot_states m))" "b \<in> set (inactive_bots m)"
  shows "length (active_bots (set_bot_online t b m)) = Suc (length (active_bots m))"
proof -
  have b: "b \<in> set (map fst (bot_states m))" "b \<notin> set (active_bots m)"
    using assms by (simp_all add: inactive_set)
  have "distinct (map fst (bot_states (set_bot_online t b m)))"
    using assms(1) by (simp add: keys_set_bot_online)
  then have "length (active_bots (set_bot_online t b m)) = card (insert b (set (active_bots m)))"
    using b(1) by (simp add: length_active_card active_set_bot_online)
  also have "\<dots> = Suc (card (set (active_bots m)))"
    using b(2) by simp
  finally show ?thesis using assms(1) by (simp add: length_active_card)
qed

lemma sublist_length_le:
  assumes "distinct bs" "set bs \<subseteq> set xs"
  shows "length bs \<le> length xs"
proof -
  have "length bs = card (set bs)" using assms(1) by (simp add: distinct_card)
  also have "\<dots> \<le> card (set xs)" using assms(2) by (simp add: card_mono)
  also have "\<dots> \<le> length xs" by (rule card_length)
  finally show ?thesis .
qed

lemma offline_each_counts:
  assumes "distinct (map fst (bot_states m))" "distinct bs" "set bs \<subseteq> set (active_bots m)"
  shows "map (\<lambda>m'. length (active_bots m')) (offline_each t bs m)
         = rev [length (active_bots m) - length bs ..< length (active_bots m)]"
  using assms
proof (induction bs arbitrary: m)
  case Nil then show ?case by simp
next
  case (Cons b bs)
  define m' where "m' = set_bot_offline t b m"
  define c where "c = length (active_bots m)"
  have bA: "b \<in> set (active_bots m)" using Cons.prems(3) by simp
  have len: "Suc (length bs) \<le> c"
    using sublist_length_le[OF Cons.prems(2,3)] by (simp add: c_def)
  have c': "length (active_bots m') = c - 1"
    unfolding m'_def c_def using Cons.prems(1) bA by (rule length_active_offline)
  have k': "distinct (map fst (bot_states m'))"
    using Cons.prems(1) by (simp add: m'_def keys_set_bot_offline)
  have sub: "set bs \<subseteq> set (active_bots m')"
    using Cons.prems(2,3) by (auto simp: m'_def active_set_bot_offline)
  have d: "distinct bs" using Cons.prems(2) by simp
  have ih: "map (\<lambda>m'. length (active_bots m')) (offline_each t bs m')
            = rev [c - 1 - length bs ..< c - 1]"
    using Cons.IH[OF k' d sub] by (simp add: c')
  have "[c - Suc (length bs) ..< c] = [c - 1 - length bs ..< c - 1] @ [c - 1]"
  proof -
    have "c = Suc (c - 1)" using len by simp
    then have "[c - Suc (length bs) ..< c] = [c - Suc (length bs) ..< Suc (c - 1)]" by simp
    also have "\<dots> = [c - Suc (length bs) ..< c - 1] @ [c - 1]"
      using len by (intro upt_Suc_append) simp
    finally show ?thesis by simp
  qed
  then show ?case
    using ih c' by (simp add: Let_def m'_def[symmetric] c_def[symmetric])
qed

lemma last_offline_each:
  "map fst (bot_states (last (m # offline_each t bs m))) = map fst (bot_states m) \<and>
   set (active_bots (last (m # offline_each t bs m))) = set (active_bots m) - set bs"
proof (induction bs arbitrary: m)
  case Nil then show ?case by simp
next
  case (Cons b bs)
  show ?case
    using Cons.IH[of "set_bot_offline t b m"]
    by (auto simp: Let_def keys_set_bot_offline active_set_bot_offline)
qed

lemma online_each_counts:
  assumes "distinct (map fst (bot_states m))" "distinct cs" "set cs \<subseteq> set (inactive_bots m)"
  shows "map (\<lambda>m'. length (active_bots m')) (online_each t cs m)
         = [Suc (length (active_bots m)) ..< Suc (length (active_bots m) + length cs)]"
  using assms
proof (induction cs arbitrary: m)
  case Nil then show ?case by simp
next
  case (Cons b cs)
  define m' where "m' = set_bot_online t b m"
  define c where "c = length (active_bots m)"
  have bI: "b \<in> set (inactive_bots m)" using Cons.prems(3) by simp
  have c': "length (active_bots m') = Suc c"
    unfolding m'_def c_def using Cons.prems(1) bI by (rule length_active_online)
  have k': "distinct (map fst (bot_states m'))"
    using Cons.prems(1) by (simp add: m'_def keys_set_bot_online)
  have sub: "set cs \<subseteq> set (inactive_bots m')"
    using Cons.prems k'
    by (auto simp: inactive_set m'_def keys_set_bot_online active_set_bot_online)
  have d: "distinct cs" using Cons.prems(2) by simp
  have ih: "map (\<lambda>m'. length (active_bots m')) (online_each t cs m')
            = [Suc (Suc c) ..< Suc (Suc c + length cs)]"
    using Cons.IH[OF k' d sub] by (simp add: c')
  have "[Suc c ..< Suc (c + Suc (length cs))] = Suc c # [Suc (Suc c) ..< Suc (Suc c + length cs)]"
    by (subst upt_conv_Cons) simp_all
  then show ?case
    using ih c' by (simp add: Let_def m'_def[symmetric] c_def[symmetric])
qed

lemma last_online_each:
  "map fst (bot_states (last (m # online_each t bs m))) = map fst (bot_states m)"
proof (induction bs arbitrary: m)
  case Nil then show ?case by simp
next
  case (Cons b bs)
  show ?case
    using Cons.IH[of "set_bot_online t b m"]
    by (simp add: Let_def keys_set_bot_online)
qed

lemma active_bots_last_rotation [simp]: "active_bots (m\<lparr>last_rotation := t\<rparr>) = active_bots m"
  by (simp add: active_bots_def)

lemma inactive_bots_last_rotation [simp]: "inactive_bots (m\<lparr>last_rotation := t\<rparr>) = inactive_bots m"
  by (simp add: inactive_bots_def)

text \<open>
  C6. When a rotation runs (rotation and offline mode enabled, the interval elapsed) with
  more agents online than the bound \<open>max_online_bots\<close>, the bound not being negative,
  then whatever the random draws, exactly online minus max agents of the online set are
  taken offline, the online count after the step is the bound, and the keys of the agent
  map are the same as before.
\<close>

theorem rotate_down_to_max:
  assumes "enable_bot_rotation m" "enable_offline_mode m"
    and "rotation_interval m \<le> now - last_rotation m"
    and "distinct (map fst (bot_states m))"
    and "0 \<le> max_online_bots m"
    and "int (length (active_bots m)) > max_online_bots m"
  shows "int (length (active_bots (rotate_online_bots now d m))) = max_online_bots m \<and>
         map fst (bot_states (rotate_online_bots now d m)) = map fst (bot_states m) \<and>
         set (active_bots (rotate_online_bots now d m)) \<subseteq> set (active_bots m) \<and>
         int (card (set (active_bots m) - set (active_bots (rotate_online_bots now d m))))
           = int (length (active_bots m)) - max_online_bots m"
proof -
  define m0 where "m0 = m\<lparr>last_rotation := now\<rparr>"
  define k where "k = int (length (active_bots m)) - max_online_bots m"
  define bots where "bots = sample (sample_offline d) (active_bots m) (nat k)"
  have k: "0 \<le> k" "k \<le> int (length (active_bots m))"
    using assms(5,6) by (simp_all add: k_def)
  have da: "distinct (active_bots m)" using assms(4) by (rule distinct_active_bots)
  have rs: "random_sample (sample_offline d) (active_bots m) k = Inr bots"
    using k by (simp add: random_sample_ok bots_def)
  have bots: "int (length bots) = k" "distinct bots" "set bots \<subseteq> set (active_bots m)"
    using random_sample_Inr[OF rs da] by simp_all
  have tr: "rotate_trace now d m = m0 # offline_each now bots m0"
    using assms(1,2,3,6) rs by (simp add: rotate_trace_def Let_def m0_def k_def)
  define m' where "m' = rotate_online_bots now d m"
  have m': "m' = last (m0 # offline_each now bots m0)"
    by (simp add: m'_def rotate_online_bots_def tr)
  have keys: "map fst (bot_states m') = map fst (bot_states m)"
    using last_offline_each[of m0 now bots] by (simp add: m' m0_def)
  have act: "set (active_bots m') = set (active_bots m) - set bots"
    using last_offline_each[of m0 now bots] by (simp add: m' m0_def)
  have diff: "set (active_bots m) - set (active_bots m') = set bots"
    using act bots(3) by auto
  have cb: "card (set bots) = nat k"
    using bots(1,2) by (simp add: distinct_card)
  have "length (active_bots m') = card (set (active_bots m) - set bots)"
    using assms(4) keys act by (simp add: length_active_card)
  also have "\<dots> = card (set (active_bots m)) - card (set bots)"
    using bots(3) by (simp add: card_Diff_subset)
  also have "\<dots> = length (active_bots m) - nat k"
    using da cb by (simp add: distinct_card)
  finally have "int (length (active_bots m')) = max_online_bots m"
    using k by (simp add: k_def)
  then show ?thesis
    using keys act diff cb k unfolding m'_def[symmetric] by (auto simp: k_def)
qed

lemma swap_trace_counts:
  assumes "enable_bot_rotation m" "enable_offline_mode m"
    and "rotation_interval m \<le> now - last_rotation m"
    and "distinct (map fst (bot_states m))"
    and "int (length (active_bots m)) \<le> max_online_bots m"
    and "min_online_bots m \<le> int (length (active_bots m))"
    and "inactive_bots m \<noteq> []"
    and "n = length (active_bots m)"
    and "k = min (min n (length (inactive_bots m))) (randint_1_2 d)"
  shows "map (\<lambda>m'. length (active_bots m')) (rotate_trace now d m)
           = n # rev [n - k ..< n] @ [Suc (n - k) ..< Suc n] \<and>
         (\<forall>m' \<in> set (rotate_trace now d m). int (length (active_bots m')) \<le> max_online_bots m)"
proof -
  define m0 where "m0 = m\<lparr>last_rotation := now\<rparr>"
  define offb where "offb = sample (sample_offline d) (active_bots m) k"
  define onb where "onb = sample (sample_online d) (inactive_bots m) k"
  define offs where "offs = offline_each now offb m0"
  define m1 where "m1 = last (m0 # offs)"
  define ons where "ons = online_each (now + 5) onb m1"
  have kle: "k \<le> n" "k \<le> length (inactive_bots m)" using assms(9) by simp_all
  have kint: "min (min (int (length (active_bots m))) (int (length (inactive_bots m))))
                (int (randint_1_2 d)) = int k"
    using assms(8,9) by simp
  have da: "distinct (active_bots m)" using assms(4) by (rule distinct_active_bots)
  have di: "distinct (inactive_bots m)" using assms(4) by (rule distinct_inactive_bots)
  have rs1: "random_sample (sample_offline d) (active_bots m) (int k) = Inr offb"
    using kle assms(8) by (simp add: random_sample_ok offb_def)
  have rs2: "random_sample (sample_online d) (inactive_bots m) (int k) = Inr onb"
    using kle by (simp add: random_sample_ok onb_def)
  have offb: "length offb = k" "distinct offb" "set offb \<subseteq> set (active_bots m)"
    using random_sample_Inr[OF rs1 da] by simp_all
  have onb: "length onb = k" "distinct onb" "set onb \<subseteq> set (inactive_bots m)"
    using random_sample_Inr[OF rs2 di] by simp_all
  have m0s: "active_bots m0 = active_bots m" "inactive_bots m0 = inactive_bots m"
    "max_online_bots m0 = max_online_bots m" "min_online_bots m0 = min_online_bots m"
    by (simp_all add: m0_def)
  have tr: "rotate_trace now d m = m0 # offs @ ons"
    using assms(1,2,3,5,6,7) rs1 rs2
    by (simp add: rotate_trace_def Let_def m0_def[symmetric] m0s kint offs_def[symmetric]
        m1_def[symmetric] ons_def[symmetric] del: last.simps)
  have k0: "distinct (map fst (bot_states m0))" using assms(4) by (simp add: m0_def)
  have c_offs: "map (\<lambda>m'. length (active_bots m')) offs = rev [n - k ..< n]"
    using offline_each_counts[OF k0, of offb now] offb
    by (simp add: offs_def m0_def assms(8))
  have keys1: "map fst (bot_states m1) = map fst (bot_states m)"
    using last_offline_each[of m0 now offb] by (simp add: m1_def offs_def m0_def)
  have act1: "set (active_bots m1) = set (active_bots m) - set offb"
    using last_offline_each[of m0 now offb] by (simp add: m1_def offs_def m0_def)
  have k1: "distinct (map fst (bot_states m1))" using assms(4) keys1 by simp
  have "length (active_bots m1) = card (set (active_bots m) - set offb)"
    using k1 act1 by (simp add: length_active_card)
  also have "\<dots> = card (set (active_bots m)) - card (set offb)"
    using offb(3) by (simp add: card_Diff_subset)
  also have "\<dots> = n - k"
    using da offb(1,2) by (simp add: distinct_card assms(8))
  finally have n1: "length (active_bots m1) = n - k" .
  have sub1: "set onb \<subseteq> set (inactive_bots m1)"
    using onb(3) k1 assms(4) by (auto simp: inactive_set keys1 act1)
  have c_ons: "map (\<lambda>m'. length (active_bots m')) ons = [Suc (n - k) ..< Suc n]"
    using online_each_counts[OF k1 onb(2) sub1, of "now + 5"] kle
    by (simp add: ons_def n1 onb(1))
  have counts: "map (\<lambda>m'. length (active_bots m')) (rotate_trace now d m)
           = n # rev [n - k ..< n] @ [Suc (n - k) ..< Suc n]"
    by (simp add: tr c_offs c_ons m0_def assms(8))
  have "\<forall>c \<in> set (n # rev [n - k ..< n] @ [Suc (n - k) ..< Suc n]). c \<le> n"
    by auto
  then have "\<forall>c \<in> set (map (\<lambda>m'. length (active_bots m')) (rotate_trace now d m)). c \<le> n"
    by (simp only: counts)
  then have "\<forall>m' \<in> set (rotate_trace now d m). length (active_bots m') \<le> n"
    by simp
  then have "\<forall>m' \<in> set (rotate_trace now d m). int (length (active_bots m')) \<le> max_online_bots m"
    using assms(5,8) by auto
  then show ?thesis using counts by blast
qed

lemma map_of_map_pairs:
  "map_of (map (\<lambda>(k, st). (k, f k st)) xs) b = map_option (f b) (map_of xs b)"
  by (induction xs) auto

lemma map_of_map_states:
  "map_of (bot_states (map_states f m)) b = map_option (f b) (map_of (bot_states m) b)"
  by (simp add: map_states_def map_of_map_pairs)

lemma map_of_set_bot_offline:
  "map_of (bot_states (set_bot_offline t x m)) b =
     (if b = x then map_option (\<lambda>st. st\<lparr>is_active := False, offline_since := Some t\<rparr>)
                      (map_of (bot_states m) b)
      else map_of (bot_states m) b)"
  by (simp add: set_bot_offline_def modify_state_def map_of_map_states option.map_ident)

lemma map_of_set_bot_online:
  "map_of (bot_states (set_bot_online t x m)) b =
     (if b = x then map_option (\<lambda>st. st\<lparr>is_active := True, offline_since := None,
                                          last_activity := t\<rparr>)
                      (map_of (bot_states m) b)
      else map_of (bot_states m) b)"
  by (simp add: set_bot_online_def modify_state_def map_of_map_states option.map_ident)

lemma last_offline_each_fold:
  "last (m # offline_each t bs m) = fold (set_bot_offline t) bs m"
  by (induction bs arbitrary: m) (simp_all add: Let_def)

lemma last_online_each_fold:
  "last (m # online_each t bs m) = fold (set_bot_online t) bs m"
  by (induction bs arbitrary: m) (simp_all add: Let_def)

lemma fold_offline_other:
  "b \<notin> set bs \<Longrightarrow>
   map_of (bot_states (fold (set_bot_offline t) bs m)) b = map_of (bot_states m) b"
  by (induction bs arbitrary: m) (simp_all add: map_of_set_bot_offline)

lemma fold_online_other:
  "b \<notin> set bs \<Longrightarrow>
   map_of (bot_states (fold (set_bot_online t) bs m)) b = map_of (bot_states m) b"
  by (induction bs arbitrary: m) (simp_all add: map_of_set_bot_online)

lemma fold_offline_member:
  "b \<in> set bs \<Longrightarrow> map_of (bot_states m) b = Some st0 \<Longrightarrow>
   \<exists>st. map_of (bot_states (fold (set_bot_offline t) bs m)) b = Some st \<and>
        \<not> is_active st \<and> offline_since st = Some t"
proof (induction bs arbitrary: m st0)
  case Nil then show ?case by simp
next
  case (Cons x bs)
  show ?case
  proof (cases "b \<in> set bs")
    case True
    have "\<exists>st1. map_of (bot_states (set_bot_offline t x m)) b = Some st1"
      using Cons.prems(2) by (cases "b = x") (simp_all add: map_of_set_bot_offline)
    then obtain st1 where "map_of (bot_states (set_bot_offline t x m)) b = Some st1" ..
    then show ?thesis using Cons.IH[OF True] by simp
  next
    case False
    then have bx: "b = x" using Cons.prems(1) by simp
    have "map_of (bot_states (fold (set_bot_offline t) bs (set_bot_offline t x m))) b
          = map_of (bot_states (set_bot_offline t x m)) b"
      using False by (rule fold_offline_other)
    then show ?thesis using Cons.prems(2) bx by (simp add: map_of_set_bot_offline)
  qed
qed

lemma fold_online_member:
  "b \<in> set bs \<Longrightarrow> map_of (bot_states m) b = Some st0 \<Longrightarrow>
   \<exists>st. map_of (bot_states (fold (set_bot_online t) bs m)) b = Some st \<and>
        is_active st \<and> offline_since st = None \<and> last_activity st = t"
proof (induction bs arbitrary: m st0)
  case Nil then show ?case by simp
next
  case (Cons x bs)
  show ?case
  proof (cases "b \<in> set bs")
    case True
    have "\<exists>st1. map_of (bot_states (set_bot_online t x m)) b = Some st1"
      using Cons.prems(2) by (cases "b = x") (simp_all add: map_of_set_bot_online)
    then obtain st1 where "map_of (bot_states (set_bot_online t x m)) b = Some st1" ..
    then show ?thesis using Cons.IH[OF True] by simp
  next
    case False
    then have bx: "b = x" using Cons.prems(1) by simp
    have "map_of (bot_states (fold (set_bot_online t) bs (set_bot_online t x m))) b
          = map_of (bot_states (set_bot_online t x m)) b"
      using False by (rule fold_online_other)
    then show ?thesis using Cons.prems(2) bx by (simp add: map_of_set_bot_online)
  qed
qed

lemma active_fold_online:
  "set (active_bots (fold (set_bot_online t) bs m))
     = set (active_bots m) \<union> (set bs \<inter> set (map fst (bot_states m)))"
proof (induction bs arbitrary: m)
  case Nil then show ?case by simp
next
  case (Cons x bs)
  show ?case
    using Cons.IH[of "set_bot_online t x m"]
    by (auto simp: active_set_bot_online keys_set_bot_online)
qed

lemma active_bots_subset_keys: "set (active_bots m) \<subseteq> set (map fst (bot_states m))"
  by (auto simp: active_bots_def)

lemma key_has_state: "b \<in> set (map fst (bot_states m)) \<Longrightarrow> \<exists>st. map_of (bot_states m) b = Some st"
  by (metis domD dom_map_of_conv_image_fst image_set)

lemma length_offline_each: "length (offline_each t bs m) = length bs"
  by (induction bs arbitrary: m) (simp_all add: Let_def)

text \<open>
  Claim C5. In the swap branch of the rotation step (the online count is within
  \<open>[min_online_bots, max_online_bots]\<close> and some agent is offline), \<open>k\<close> of the online agents
  and \<open>k\<close> of the agents that were offline before the step are chosen. The chosen online
  agents are taken offline first, one after the other, stamped with the time \<open>now\<close> of the
  step: the state after \<open>k\<close> calls is \<open>after_offline\<close>, where the online set is the old one
  without the chosen agents. Only then, after the five seconds of \<open>asyncio.sleep(5)\<close>, the
  chosen offline agents are brought online, stamped \<open>now + 5\<close>; at return the online set is
  the old one without the agents taken offline and with the agents brought online, the former
  still offline since \<open>now\<close>. The online counts of the states passed through are
  \<open>n, n - 1, \<dots>, n - k, n - k + 1, \<dots>, n\<close>, so that none exceeds \<open>max_online_bots\<close>, in
  particular not the one between the two loops.
\<close>

theorem swap_offline_before_online:
  assumes "enable_bot_rotation m" "enable_offline_mode m"
    and "rotation_interval m \<le> now - last_rotation m"
    and "distinct (map fst (bot_states m))"
    and "int (length (active_bots m)) \<le> max_online_bots m"
    and "min_online_bots m \<le> int (length (active_bots m))"
    and "inactive_bots m \<noteq> []"
    and "n = length (active_bots m)"
    and "k = min (min n (length (inactive_bots m))) (randint_1_2 d)"
    and "to_offline = sample (sample_offline d) (active_bots m) k"
    and "to_online = sample (sample_online d) (inactive_bots m) k"
    and "after_offline = fold (set_bot_offline now) to_offline (m\<lparr>last_rotation := now\<rparr>)"
  shows "rotate_trace now d m =
           m\<lparr>last_rotation := now\<rparr> # offline_each now to_offline (m\<lparr>last_rotation := now\<rparr>)
             @ online_each (now + 5) to_online after_offline \<and>
         length to_offline = k \<and> length to_online = k \<and>
         distinct to_offline \<and> distinct to_online \<and>
         set to_offline \<subseteq> set (active_bots m) \<and> set to_online \<subseteq> set (inactive_bots m) \<and>
         rotate_trace now d m ! k = after_offline \<and>
         set (active_bots after_offline) = set (active_bots m) - set to_offline \<and>
         set (active_bots (rotate_online_bots now d m))
           = (set (active_bots m) - set to_offline) \<union> set to_online \<and>
         (\<forall>b \<in> set to_offline. \<exists>st. map_of (bot_states (rotate_online_bots now d m)) b = Some st \<and>
              \<not> is_active st \<and> offline_since st = Some now) \<and>
         (\<forall>b \<in> set to_online. \<exists>st. map_of (bot_states (rotate_online_bots now d m)) b = Some st \<and>
              is_active st \<and> offline_since st = None \<and> last_activity st = now + 5) \<and>
         map (\<lambda>m'. length (active_bots m')) (rotate_trace now d m)
           = n # rev [n - k ..< n] @ [Suc (n - k) ..< Suc n] \<and>
         (\<forall>m' \<in> set (rotate_trace now d m). int (length (active_bots m')) \<le> max_online_bots m)"
proof -
  define m0 where "m0 = m\<lparr>last_rotation := now\<rparr>"
  define offs where "offs = offline_each now to_offline m0"
  define ons where "ons = online_each (now + 5) to_online after_offline"
  define final where "final = rotate_online_bots now d m"
  have m1: "after_offline = last (m0 # offs)"
    unfolding assms(12) offs_def m0_def last_offline_each_fold by (rule refl)
  have kle: "k \<le> n" "k \<le> length (inactive_bots m)" using assms(9) by simp_all
  have kint: "min (min (int (length (active_bots m))) (int (length (inactive_bots m))))
                (int (randint_1_2 d)) = int k"
    using assms(8,9) by simp
  have da: "distinct (active_bots m)" using assms(4) by (rule distinct_active_bots)
  have di: "distinct (inactive_bots m)" using assms(4) by (rule distinct_inactive_bots)
  have rs1: "random_sample (sample_offline d) (active_bots m) (int k) = Inr to_offline"
    using kle assms(8) by (simp add: random_sample_ok assms(10))
  have rs2: "random_sample (sample_online d) (inactive_bots m) (int k) = Inr to_online"
    using kle by (simp add: random_sample_ok assms(11))
  have offb: "length to_offline = k" "distinct to_offline" "set to_offline \<subseteq> set (active_bots m)"
    using random_sample_Inr[OF rs1 da] by simp_all
  have onb: "length to_online = k" "distinct to_online" "set to_online \<subseteq> set (inactive_bots m)"
    using random_sample_Inr[OF rs2 di] by simp_all
  have m0s: "active_bots m0 = active_bots m" "inactive_bots m0 = inactive_bots m"
    "max_online_bots m0 = max_online_bots m" "min_online_bots m0 = min_online_bots m"
    "bot_states m0 = bot_states m"
    by (simp_all add: m0_def)
  have tr: "rotate_trace now d m = m0 # offs @ ons"
    using assms(1,2,3,5,6,7) rs1 rs2
    by (simp add: rotate_trace_def Let_def m0_def[symmetric] m0s kint offs_def[symmetric]
        m1[symmetric] ons_def[symmetric] del: last.simps)
  have len_offs: "length offs = k"
    by (simp add: offs_def length_offline_each offb(1))
  have nth_k: "rotate_trace now d m ! k = after_offline"
  proof -
    have "(m0 # offs @ ons) ! k = ((m0 # offs) @ ons) ! k" by simp
    also have "\<dots> = (m0 # offs) ! k"
      using len_offs by (simp only: nth_append) simp
    also have "\<dots> = last (m0 # offs)"
      using len_offs last_conv_nth[of "m0 # offs"] by simp
    finally show ?thesis by (simp add: tr m1)
  qed
  have keys1: "map fst (bot_states after_offline) = map fst (bot_states m)"
    using last_offline_each[of m0 now to_offline] by (simp add: m1 offs_def m0s)
  have act1: "set (active_bots after_offline) = set (active_bots m) - set to_offline"
    using last_offline_each[of m0 now to_offline] by (simp add: m1 offs_def m0s)
  have fin: "final = fold (set_bot_online (now + 5)) to_online after_offline"
  proof -
    have "last (m0 # offs @ ons) = last (after_offline # ons)"
      by (cases "ons = []") (simp_all add: m1)
    then show ?thesis
      by (simp add: final_def rotate_online_bots_def tr ons_def last_online_each_fold
          del: last.simps)
  qed
  have in_keys: "set to_online \<subseteq> set (map fst (bot_states m))"
    using onb(3) assms(4) by (auto simp: inactive_set)
  have act_fin: "set (active_bots final) = (set (active_bots m) - set to_offline) \<union> set to_online"
    using in_keys by (auto simp: fin active_fold_online act1 keys1)
  have disj: "set to_offline \<inter> set to_online = {}"
    using offb(3) onb(3) assms(4) by (auto simp: inactive_set)
  have st_off: "\<exists>st. map_of (bot_states final) b = Some st \<and> \<not> is_active st \<and> offline_since st = Some now"
    if b: "b \<in> set to_offline" for b
  proof -
    have "b \<in> set (map fst (bot_states m0))"
      using b offb(3) active_bots_subset_keys[of m] by (auto simp: m0s)
    then obtain st0 where "map_of (bot_states m0) b = Some st0"
      using key_has_state by blast
    then have "\<exists>st. map_of (bot_states after_offline) b = Some st \<and> \<not> is_active st \<and>
                 offline_since st = Some now"
      unfolding assms(12) m0_def[symmetric] using b by (rule fold_offline_member[rotated])
    moreover have "map_of (bot_states final) b = map_of (bot_states after_offline) b"
      unfolding fin using b disj by (intro fold_online_other) auto
    ultimately show ?thesis by simp
  qed
  have st_on: "\<exists>st. map_of (bot_states final) b = Some st \<and> is_active st \<and>
                 offline_since st = None \<and> last_activity st = now + 5"
    if b: "b \<in> set to_online" for b
  proof -
    have "b \<in> set (map fst (bot_states after_offline))"
      using b in_keys keys1 by auto
    then obtain st0 where "map_of (bot_states after_offline) b = Some st0"
      using key_has_state by blast
    then show ?thesis
      unfolding fin using b by (rule fold_online_member[rotated])
  qed
  note cnt = swap_trace_counts[OF assms(1-9)]
  show ?thesis
    unfolding final_def[symmetric] m0_def[symmetric] offs_def[symmetric] ons_def[symmetric]
    using tr offb onb nth_k act1 act_fin st_off st_on cnt
    by (simp add: final_def m0_def offs_def ons_def)
qed


lemma bot_states_swap_example:
  "bot_states (set_bot_offline 10 ''c'' (fold (\<lambda>b. register_bot 0 (1 / 2) b None) [''a'', ''b'', ''c'']
       (new_BotActivityManager 0 15 default_Config ''a'' False))) =
   [(''a'', new_ActivityState 0 ''a'' (1 / 2) True (Some 0)),
    (''b'', new_ActivityState 0 ''b'' (1 / 2) True (Some 0)),
    (''c'', (new_ActivityState 0 ''c'' (1 / 2) True (Some 0))\<lparr>is_active := False, offline_since := Some 10\<rparr>)]"
  by (simp add: register_bot_def dict_set_def new_BotActivityManager_def Let_def
      set_bot_offline_def modify_state_def map_states_def)

theorem swap_offline_before_online_witness:
  "let m = set_bot_offline 10 ''c'' (fold (\<lambda>b. register_bot 0 (1 / 2) b None) [''a'', ''b'', ''c'']
             (new_BotActivityManager 0 15 default_Config ''a'' False));
       d = \<lparr>sample_offline = (\<lambda>i. 0), sample_online = (\<lambda>i. 0), randint_1_2 = 1\<rparr>;
       m1 = set_bot_offline 4000 ''a'' (m\<lparr>last_rotation := 4000\<rparr>);
       m2 = set_bot_online 4005 ''c'' m1
   in enable_bot_rotation m \<and> enable_offline_mode m \<and>
      rotation_interval m \<le> 4000 - last_rotation m \<and>
      distinct (map fst (bot_states m)) \<and>
      int (length (active_bots m)) \<le> max_online_bots m \<and>
      min_online_bots m \<le> int (length (active_bots m)) \<and>
      inactive_bots m \<noteq> [] \<and>
      active_bots m = [''a'', ''b''] \<and> inactive_bots m = [''c''] \<and>
      sample (sample_offline d) (active_bots m) 1 = [''a''] \<and>
      sample (sample_online d) (inactive_bots m) 1 = [''c''] \<and>
      rotate_trace 4000 d m = [m\<lparr>last_rotation := 4000\<rparr>, m1, m2] \<and>
      rotate_trace 4000 d m ! 1 = m1 \<and>
      set (active_bots m1) = {''b''} \<and>
      set (active_bots (rotate_online_bots 4000 d m)) = {''b'', ''c''} \<and>
      (\<exists>st. map_of (bot_states (rotate_online_bots 4000 d m)) ''a'' = Some st \<and>
            \<not> is_active st \<and> offline_since st = Some 4000) \<and>
      (\<exists>st. map_of (bot_states (rotate_online_bots 4000 d m)) ''c'' = Some st \<and>
            is_active st \<and> offline_since st = None \<and> last_activity st = 4005) \<and>
      map (\<lambda>m'. length (active_bots m')) (rotate_trace 4000 d m) = [2, 1, 2]"
proof -
  define m where "m = set_bot_offline 10 ''c'' (fold (\<lambda>b. register_bot 0 (1 / 2) b None) [''a'', ''b'', ''c'']
             (new_BotActivityManager 0 15 default_Config ''a'' False))"
  define d where "d = \<lparr>sample_offline = (\<lambda>i. 0::nat), sample_online = (\<lambda>i. 0::nat), randint_1_2 = 1\<rparr>"
  define m1 where "m1 = set_bot_offline 4000 ''a'' (m\<lparr>last_rotation := 4000\<rparr>)"
  define m2 where "m2 = set_bot_online 4005 ''c'' m1"
  have bs: "bot_states m =
   [(''a'', new_ActivityState 0 ''a'' (1 / 2) True (Some 0)),
    (''b'', new_ActivityState 0 ''b'' (1 / 2) True (Some 0)),
    (''c'', (new_ActivityState 0 ''c'' (1 / 2) True (Some 0))\<lparr>is_active := False, offline_since := Some 10\<rparr>)]"
    unfolding m_def by (rule bot_states_swap_example)
  have h1: "enable_bot_rotation m" and h2: "enable_offline_mode m"
    and h3: "rotation_interval m \<le> 4000 - last_rotation m"
    and mx: "max_online_bots m = 3" and mn: "min_online_bots m = 2"
    by (simp_all add: m_def register_bot_def new_BotActivityManager_def default_Config_def Let_def
        set_bot_offline_def modify_state_def map_states_def)
  have h4: "distinct (map fst (bot_states m))" by (simp add: bs)
  have act: "active_bots m = [''a'', ''b'']"
    by (simp add: active_bots_def bs new_ActivityState_def)
  have inact: "inactive_bots m = [''c'']"
    by (simp add: inactive_bots_def bs new_ActivityState_def)
  have h5: "int (length (active_bots m)) \<le> max_online_bots m" by (simp add: act mx)
  have h6: "min_online_bots m \<le> int (length (active_bots m))" by (simp add: act mn)
  have h7: "inactive_bots m \<noteq> []" by (simp add: inact)
  have n: "(2::nat) = length (active_bots m)" by (simp add: act)
  have k: "(1::nat) = min (min 2 (length (inactive_bots m))) (randint_1_2 d)"
    by (simp add: inact d_def)
  have so: "[''a''] = sample (sample_offline d) (active_bots m) 1"
    by (simp add: act d_def)
  have sn: "[''c''] = sample (sample_online d) (inactive_bots m) 1"
    by (simp add: inact d_def)
  have ao: "m1 = fold (set_bot_offline 4000) [''a''] (m\<lparr>last_rotation := 4000\<rparr>)"
    by (simp add: m1_def)
  have upts: "[2 - 1 ..< 2] = [1::nat]" "[Suc (2 - 1) ..< Suc 2] = [2::nat]"
    by (simp_all add: upt_rec)
  note th = swap_offline_before_online[OF h1 h2 h3 h4 h5 h6 h7 n k so sn ao]
  have oe: "offline_each 4000 [''a''] (m\<lparr>last_rotation := 4000\<rparr>) = [m1]"
    by (simp add: m1_def)
  have ne: "online_each (4000 + 5) [''c''] m1 = [m2]"
    by (simp add: m2_def)
  have tr: "rotate_trace 4000 d m = [m\<lparr>last_rotation := 4000\<rparr>, m1, m2]"
    using th[unfolded oe ne] by simp
  have c1: "rotate_trace 4000 d m ! 1 = m1" using th by blast
  have c2: "set (active_bots m1) = {''b''}" using th by (auto simp: act)
  have c3: "set (active_bots (rotate_online_bots 4000 d m)) = {''b'', ''c''}"
    using th by (auto simp: act)
  have c4: "\<exists>st. map_of (bot_states (rotate_online_bots 4000 d m)) ''a'' = Some st \<and>
            \<not> is_active st \<and> offline_since st = Some 4000"
    using th by simp
  have c5: "\<exists>st. map_of (bot_states (rotate_online_bots 4000 d m)) ''c'' = Some st \<and>
            is_active st \<and> offline_since st = None \<and> last_activity st = 4005"
    using th by simp
  have "map (\<lambda>m'. length (active_bots m')) (rotate_trace 4000 d m)
          = 2 # rev [2 - 1 ..< 2] @ [Suc (2 - 1) ..< Suc 2]"
    using th by blast
  then have c6: "map (\<lambda>m'. length (active_bots m')) (rotate_trace 4000 d m) = [2, 1, 2]"
    unfolding upts by simp
  show ?thesis
    unfolding Let_def m_def[symmetric] d_def[symmetric] m1_def[symmetric] m2_def[symmetric]
    by (intro conjI h1 h2 h3 h4 h5 h6 h7 act inact so[symmetric] sn[symmetric] tr c1 c2 c3 c4 c5 c6)
qed

lemma bot_states_register_new:
  "bot_states (fold (\<lambda>b. register_bot 0 (1 / 2) b None) [''a'', ''b'', ''c'', ''d'']
       (new_BotActivityManager 0 15 default_Config ''a'' False)) =
   [(''a'', new_ActivityState 0 ''a'' (1 / 2) True (Some 0)),
    (''b'', new_ActivityState 0 ''b'' (1 / 2) True (Some 0)),
    (''c'', new_ActivityState 0 ''c'' (1 / 2) True (Some 0)),
    (''d'', new_ActivityState 0 ''d'' (1 / 2) True (Some 0))]"
  by (simp add: register_bot_def dict_set_def new_BotActivityManager_def Let_def)

theorem rotate_down_to_max_witness:
  "let m = fold (\<lambda>b. register_bot 0 (1 / 2) b None) [''a'', ''b'', ''c'', ''d'']
             (new_BotActivityManager 0 15 default_Config ''a'' False);
       d = \<lparr>sample_offline = (\<lambda>i. 0), sample_online = (\<lambda>i. 0), randint_1_2 = 1\<rparr>
   in enable_bot_rotation m \<and> enable_offline_mode m \<and>
      rotation_interval m \<le> 4000 - last_rotation m \<and>
      distinct (map fst (bot_states m)) \<and> 0 \<le> max_online_bots m \<and>
      int (length (active_bots m)) > max_online_bots m \<and>
      length (active_bots m) = 4 \<and>
      int (length (active_bots (rotate_online_bots 4000 d m))) = 3 \<and>
      map fst (bot_states (rotate_online_bots 4000 d m)) = [''a'', ''b'', ''c'', ''d'']"
proof -
  define m where "m = fold (\<lambda>b. register_bot 0 (1 / 2) b None) [''a'', ''b'', ''c'', ''d'']
             (new_BotActivityManager 0 15 default_Config ''a'' False)"
  define d where "d = \<lparr>sample_offline = (\<lambda>i. 0::nat), sample_online = (\<lambda>i. 0::nat), randint_1_2 = 1\<rparr>"
  have bs: "bot_states m =
   [(''a'', new_ActivityState 0 ''a'' (1 / 2) True (Some 0)),
    (''b'', new_ActivityState 0 ''b'' (1 / 2) True (Some 0)),
    (''c'', new_ActivityState 0 ''c'' (1 / 2) True (Some 0)),
    (''d'', new_ActivityState 0 ''d'' (1 / 2) True (Some 0))]"
    unfolding m_def by (rule bot_states_register_new)
  have h1: "enable_bot_rotation m" and h2: "enable_offline_mode m"
    and h3: "rotation_interval m \<le> 4000 - last_rotation m"
    and h5: "0 \<le> max_online_bots m" and mx: "max_online_bots m = 3"
    by (simp_all add: m_def register_bot_def new_BotActivityManager_def default_Config_def Let_def)
  have h4: "distinct (map fst (bot_states m))" by (simp add: bs)
  have act: "active_bots m = [''a'', ''b'', ''c'', ''d'']"
    by (simp add: active_bots_def bs new_ActivityState_def)
  have h6: "int (length (active_bots m)) > max_online_bots m" by (simp add: act mx)
  show ?thesis
    unfolding Let_def m_def[symmetric] d_def[symmetric]
    using rotate_down_to_max[OF h1 h2 h3 h4 h5 h6, of d] h1 h2 h3 h4 h5 h6
    by (simp add: mx act bs)
qed

section \<open>The management loop and its handler\<close>

lemma run_steps_append_raise:
  assumes "run_steps pre s = (ns, None, s1)" "f s1 = (Some e, s2)"
  shows "run_steps (pre @ (n, f) # post) s = (ns @ [n], Some e, s2)"
  using assms
proof (induction pre arbitrary: s ns)
  case Nil then show ?case by simp
next
  case (Cons p pre)
  obtain pn pf where p: "p = (pn, pf)" by (cases p)
  obtain r t where pf: "pf s = (r, t)" by (cases "pf s")
  show ?case
  proof (cases r)
    case None
    obtain ns' r' t' where rs: "run_steps pre t = (ns', r', t')" by (cases "run_steps pre t") auto
    from Cons.prems(1) have "r' = None" "ns = pn # ns'" "t' = s1"
      by (simp_all add: p pf None rs)
    then have "run_steps (pre @ (n, f) # post) t = (ns' @ [n], Some e, s2)"
      using Cons.IH[of t ns'] rs Cons.prems(2) by simp
    then show ?thesis by (simp add: p pf None \<open>ns = pn # ns'\<close>)
  next
    case (Some a)
    with Cons.prems(1) show ?thesis by (simp add: p pf)
  qed
qed

lemma tick_total_if_Exception:
  assumes "\<forall>t n f e t'. (n, f) \<in> set steps \<and> f t = (Some e, t') \<longrightarrow> is_Exception e"
  shows "\<exists>ns r s'. tick steps s = Slept ns r s'"
proof -
  have "\<And>ns e s'. run_steps steps s = (ns, Some e, s') \<Longrightarrow> is_Exception e"
    using assms
  proof (induction steps arbitrary: s)
    case Nil then show ?case by simp
  next
    case (Cons p ps)
    obtain pn pf where p: "p = (pn, pf)" by (cases p)
    obtain r t where pf: "pf s = (r, t)" by (cases "pf s")
    show ?case
    proof (cases r)
      case None
      obtain ns' r' t' where rs: "run_steps ps t = (ns', r', t')" by (cases "run_steps ps t") auto
      from Cons.prems(1) have "r' = Some e" by (simp add: p pf None rs)
      moreover have "\<forall>t n f e t'. (n, f) \<in> set ps \<and> f t = (Some e, t') \<longrightarrow> is_Exception e"
        using Cons.prems(2) by (metis list.set_intros(2))
      ultimately show ?thesis using Cons.IH[of t ns' e t'] rs by simp
    next
      case (Some a)
      from Cons.prems(1) have "a = e" by (simp add: p pf Some)
      moreover have "(pn, pf) \<in> set (p # ps)" by (simp add: p)
      ultimately show ?thesis using Cons.prems(2) pf Some by blast
    qed
  qed
  then show ?thesis
    by (cases "run_steps steps s") (auto simp: tick_def split: option.splits)
qed

lemma loop_runs_on:
  assumes "\<forall>j t n f e t'. (n, f) \<in> set (steps j) \<and> f t = (Some e, t') \<longrightarrow> is_Exception e"
  shows "\<exists>lg' s'. start_management_loop fuel steps i lg s = Running (i + fuel) lg' s'"
proof (induction fuel arbitrary: i lg s)
  case 0 then show ?case by simp
next
  case (Suc fuel)
  have "\<forall>t n f e t'. (n, f) \<in> set (steps i) \<and> f t = (Some e, t') \<longrightarrow> is_Exception e"
    using assms by blast
  then obtain ns r s' where t: "tick (steps i) s = Slept ns r s'"
    using tick_total_if_Exception[of "steps i" s] by blast
  show ?case
  proof (cases r)
    case None
    then show ?thesis using t Suc.IH[of "Suc i" lg s'] by simp
  next
    case (Some e)
    then show ?thesis using t Suc.IH[of "Suc i" "lg @ [e]" s'] by simp
  qed
qed

lemma monitor_performance_optimizer:
  "performance_monitor m = OptimizerPerformanceMonitor mt \<Longrightarrow>
   monitor_performance smp now r m = (Some AttributeError, m)"
  by (simp add: monitor_performance_def)

lemma performance_monitor_new:
  "performance_monitor (new_BotActivityManager now ri cfg bid db) = OptimizerPerformanceMonitor new_Metrics"
  by (simp add: new_BotActivityManager_def)

lemma pm_map_states [simp]: "performance_monitor (map_states f m) = performance_monitor m"
  by (simp add: map_states_def)

lemma pm_register_bot [simp]: "performance_monitor (register_bot now rate bid c m) = performance_monitor m"
  by (simp add: register_bot_def Let_def)

text \<open>
  C8. What the code does when the host is at 96 percent CPU and four agents are online: the
  monitor the manager holds is the one of performance\_optimizer.py, which has no method
  \<open>update\<close>, so \<open>_monitor_performance\<close> raises \<open>AttributeError\<close> before it asks for the
  load, no emergency scale-down takes place and the four agents stay online.
\<close>

theorem monitor_performance_raises_AttributeError:
  "monitor_performance (Measured 96 50) 100 (\<lambda>i. 0)
     (fold (\<lambda>b. register_bot 0 (1 / 2) b None) [''a'', ''b'', ''c'', ''d'']
        (new_BotActivityManager 0 15 default_Config ''a'' False))
   = (Some AttributeError,
      fold (\<lambda>b. register_bot 0 (1 / 2) b None) [''a'', ''b'', ''c'', ''d'']
        (new_BotActivityManager 0 15 default_Config ''a'' False))
   \<and> active_bots (fold (\<lambda>b. register_bot 0 (1 / 2) b None) [''a'', ''b'', ''c'', ''d'']
        (new_BotActivityManager 0 15 default_Config ''a'' False)) = [''a'', ''b'', ''c'', ''d'']"
proof -
  have pm: "performance_monitor (fold (\<lambda>b. register_bot 0 (1 / 2) b None) [''a'', ''b'', ''c'', ''d'']
        (new_BotActivityManager 0 15 default_Config ''a'' False)) = OptimizerPerformanceMonitor new_Metrics"
    by (simp add: performance_monitor_new)
  have mp: "monitor_performance (Measured 96 50) 100 (\<lambda>i. 0)
     (fold (\<lambda>b. register_bot 0 (1 / 2) b None) [''a'', ''b'', ''c'', ''d'']
        (new_BotActivityManager 0 15 default_Config ''a'' False))
   = (Some AttributeError,
      fold (\<lambda>b. register_bot 0 (1 / 2) b None) [''a'', ''b'', ''c'', ''d'']
        (new_BotActivityManager 0 15 default_Config ''a'' False))"
    using pm by (rule monitor_performance_optimizer)
  have act: "active_bots (fold (\<lambda>b. register_bot 0 (1 / 2) b None) [''a'', ''b'', ''c'', ''d'']
        (new_BotActivityManager 0 15 default_Config ''a'' False)) = [''a'', ''b'', ''c'', ''d'']"
    unfolding active_bots_def bot_states_register_new by (simp add: new_ActivityState_def)
  from mp act show ?thesis by (rule conjI)
qed


lemma rates_loop_raises:
  "rates_loop rates bs m = (Some e, m') \<Longrightarrow> e = AttributeError"
proof (induction bs arbitrary: m)
  case Nil then show ?case by simp
next
  case (Cons b bs)
  define m1 where "m1 = modify_state b (\<lambda>st. st\<lparr>activity_rate := rates b\<rparr>) m"
  show ?case
  proof (cases "performance_monitor m1")
    case (OptimizerPerformanceMonitor mt)
    then show ?thesis using Cons.prems by (simp add: Let_def m1_def[symmetric])
  next
    case (ActivityPerformanceMonitor pm)
    then show ?thesis
      using Cons.prems Cons.IH by (simp add: Let_def m1_def[symmetric] split: if_splits)
  qed
qed

lemma update_activity_rates_raises:
  "update_activity_rates now rates ri m = (Some e, m') \<Longrightarrow> e = AttributeError"
  using rates_loop_raises[of rates "map fst (bot_states m)" m e]
  by (auto simp: update_activity_rates_def split: if_splits prod.splits option.splits)

lemma monitor_performance_raises:
  "monitor_performance smp now r m = (Some e, m') \<Longrightarrow> e = AttributeError"
  by (cases "performance_monitor m")
     (auto simp: monitor_performance_def Let_def split: if_splits)

lemma management_steps_raise_Exception:
  "(n, f) \<in> set (management_steps env) \<Longrightarrow> f t = (Some e, t') \<Longrightarrow> is_Exception e"
  by (auto simp: management_steps_def
      dest!: update_activity_rates_raises monitor_performance_raises)

lemma management_loop_runs_on:
  "\<exists>lg' m'. start_management_loop fuel (\<lambda>j. management_steps (env j)) i lg m = Running (i + fuel) lg' m'"
  by (rule loop_runs_on) (blast intro: management_steps_raise_Exception)







end
